theory Spec2Isabelle
  imports Complex_Main "HOL-Library.Monad_Syntax"
begin

section \<open>Averaged perceptron training (train\_averaged\_perceptron.c)\<close>

text \<open>
  A shallow embedding of \<^verbatim>\<open>lib/crf/src/train_averaged_perceptron.c\<close>.

  \<^item> \<^verbatim>\<open>floatval_t\<close> is \<^verbatim>\<open>double\<close>. Its finite values are real numbers, and every
    arithmetic operation of the source is the exact operation followed by a
    rounding. The rounding is the first argument \<open>rnd\<close> of every function that
    computes: the program is the model at \<open>binary64\<close> (IEEE 754 double precision,
    round to nearest, ties to even, every operation rounded on its own); the model
    at \<open>exact\<close>, which does not round, only serves to say what the program would
    compute in exact arithmetic. Infinities and NaN are not values of the model: an
    operation whose result is not a finite double is a fault. The one exception is
    the division \<^verbatim>\<open>loss / N\<close> of the convergence test, whose outcome for \<open>N = 0\<close>
    is written out.
  \<^item> \<^verbatim>\<open>int\<close> is modelled by \<open>int\<close>; the only arithmetic on it that can leave the
    range of a 32-bit \<^verbatim>\<open>int\<close> is \<^verbatim>\<open>++c\<close>, whose overflow is a fault of the model.
    The conversions of an \<^verbatim>\<open>int\<close> to \<^verbatim>\<open>floatval_t\<close> are exact.
  \<^item> Arrays are lists. A read or write outside an array is undefined behaviour in C;
    in the model it is a fault. Every function that can fault returns an \<open>option\<close>,
    and \<open>None\<close> means that the C program has left defined behaviour or the finite
    doubles.
  \<^item> The collaborators that are not part of this file (the decoder \<^verbatim>\<open>tag\<close>, the
    feature oracle \<^verbatim>\<open>enum_features\<close>, \<^verbatim>\<open>mt_shuffle\<close>, \<^verbatim>\<open>calloc\<close>, the value of
    \<^verbatim>\<open>CRFERR_OUTOFMEMORY\<close>) are parameters of the model. The calls the trainer
    makes to them and to \<^verbatim>\<open>logging\<close> are recorded, in order, in a list.
\<close>

subsection \<open>Data\<close>

type_synonym floatval_t = real

text \<open>\<^verbatim>\<open>option_t\<close>, filled by \<^verbatim>\<open>exchange_options\<close> before training starts.\<close>

record option_t =
  max_iterations :: int
  epsilon :: floatval_t

text \<open>
  \<^verbatim>\<open>update_data\<close>. The fields \<^verbatim>\<open>w\<close> and \<^verbatim>\<open>ws\<close> point to the trainer's arrays
  \<^verbatim>\<open>w\<close> and \<^verbatim>\<open>ws\<close> (\<^verbatim>\<open>ud.w = w; ud.ws = ws;\<close>), so the model keeps the two arrays
  here and nowhere else. The field names carry the prefix \<open>ud_\<close> because the trainer
  has a local variable \<^verbatim>\<open>c\<close> of its own.
\<close>

record update_data =
  ud_w :: "floatval_t list"
  ud_ws :: "floatval_t list"
  ud_c :: floatval_t
  ud_cs :: floatval_t

text \<open>
  The two fields of \<^verbatim>\<open>crf_instance_t\<close> that the trainer reads; the items of the
  sequence stay in the extension of the record.
\<close>

record crf_instance_t =
  num_items :: int
  labels :: "int list"

text \<open>
  \<^verbatim>\<open>crf_train_data_t\<close>. \<^verbatim>\<open>tag\<close> receives the weights, the instance and the
  current content of the \<^verbatim>\<open>viterbi\<close> buffer, and gives the new content of the buffer
  and the score written through \<^verbatim>\<open>&score\<close>. \<^verbatim>\<open>enum_features\<close> receives the
  instance and a label array and gives the \<^verbatim>\<open>(fid, value)\<close> pairs with which it
  invokes the callback, in order.
\<close>

record 'a crf_train_data_t =
  seqs :: "'a crf_instance_t_scheme list"
  num_instances :: int
  num_features :: int
  cap_items :: int
  tag :: "floatval_t list \<Rightarrow> 'a crf_instance_t_scheme \<Rightarrow> int list \<Rightarrow> int list \<times> floatval_t"
  enum_features :: "'a crf_instance_t_scheme \<Rightarrow> int list \<Rightarrow> (int \<times> floatval_t) list"

text \<open>
  What the platform decides: whether each of the five \<^verbatim>\<open>calloc\<close> calls returns
  \<^verbatim>\<open>NULL\<close>, the value of the constant \<^verbatim>\<open>CRFERR_OUTOFMEMORY\<close> (declared in
  \<^verbatim>\<open>crfsuite.h\<close>), and \<^verbatim>\<open>mt_shuffle(perm, N, init)\<close>, which maps the state of the
  random number generator and the buffer to the new buffer and the new state.
\<close>

record 'g platform =
  perm_null :: bool
  w_null :: bool
  ws_null :: bool
  wa_null :: bool
  viterbi_null :: bool
  CRFERR_OUTOFMEMORY :: int
  mt_shuffle :: "'g \<Rightarrow> int list \<Rightarrow> int \<Rightarrow> int \<Rightarrow> int list \<times> 'g"

text \<open>
  The messages passed to \<^verbatim>\<open>logging\<close>; the clock readings are left out and the
  consecutive calls that print one block are one message. The message of an
  iteration carries the iteration number, the loss and \<^verbatim>\<open>vecdot(wa, wa, K)\<close>,
  whose square root is the feature norm that is printed (the square root itself is
  not computable over \<open>real\<close>).
\<close>

datatype log_msg =
  Msg_parameters int floatval_t
| Msg_iteration int floatval_t floatval_t
| Msg_terminated
| Msg_total

datatype call =
  Call_logging log_msg
| Call_mt_shuffle
| Call_tag
| Call_enum_features

text \<open>
  The local variables of \<^verbatim>\<open>crf_train_averaged_perceptron\<close> that live across the
  loops, the state of the random number generator, and the calls made so far.
\<close>

record 'g locals =
  perm :: "int list"
  ud :: update_data
  wa :: "floatval_t list"
  viterbi :: "int list"
  c :: int
  loss :: floatval_t
  rng :: 'g
  calls :: "call list"

text \<open>What the caller sees: the returned status and \<^verbatim>\<open>*ptr_w\<close> (\<open>None\<close>: not written).\<close>

record 'g result =
  ret :: int
  ptr_w :: "floatval_t list option"
  res_rng :: 'g
  res_calls :: "call list"

subsection \<open>Floating-point arithmetic\<close>

text \<open>The number of binary digits of a positive integer.\<close>

function bit_length :: "int \<Rightarrow> int" where
  "bit_length n = (if n \<le> 0 then 0 else 1 + bit_length (n div 2))"
  by pat_completeness auto
termination
  by (relation "measure nat") auto

declare bit_length.simps [simp del]

definition pow2 :: "int \<Rightarrow> real" where
  "pow2 e = (if 0 \<le> e then 2 ^ nat e else 1 / 2 ^ nat (- e))"

text \<open>For \<open>x > 0\<close>, the exponent \<open>e\<close> with \<open>2 ^ e \<le> x < 2 ^ (e + 1)\<close>.\<close>

definition ilog2 :: "real \<Rightarrow> int" where
  "ilog2 x = (if 1 \<le> x then bit_length \<lfloor>x\<rfloor> - 1 else - bit_length (\<lceil>1 / x\<rceil> - 1))"

definition round_ties_even :: "real \<Rightarrow> int" where
  "round_ties_even m =
     (let n = \<lfloor>m\<rfloor>; r = m - of_int n
      in if r < 1 / 2 then n else if 1 / 2 < r then n + 1 else if even n then n else n + 1)"

text \<open>
  The double nearest to \<open>x\<close>, ties to the even significand, with the exponent not
  bounded upwards: a significand of 53 bits, and below \<open>2 ^ (-1022)\<close> the fixed
  spacing \<open>2 ^ (-1074)\<close> of the subnormal numbers.
\<close>

definition round_binary64 :: "real \<Rightarrow> real" where
  "round_binary64 x =
     (if x = 0 then 0
      else let e = max (ilog2 \<bar>x\<bar> - 52) (- 1074)
           in sgn x * (of_int (round_ties_even (\<bar>x\<bar> / pow2 e)) * pow2 e))"

definition DBL_MAX :: real where
  "DBL_MAX = (2 ^ 53 - 1) * 2 ^ 971"

text \<open>
  A rounding gives the stored result of an operation from its exact result, or
  \<open>None\<close> when the stored result is not a finite number.
\<close>

type_synonym rounding = "real \<Rightarrow> floatval_t option"

definition binary64 :: rounding where
  "binary64 x = (let y = round_binary64 x in if \<bar>y\<bar> \<le> DBL_MAX then Some y else None)"

definition exact :: rounding where
  "exact x = Some x"

definition fadd :: "rounding \<Rightarrow> floatval_t \<Rightarrow> floatval_t \<Rightarrow> floatval_t option" where
  "fadd rnd x y = rnd (x + y)"

definition fsub :: "rounding \<Rightarrow> floatval_t \<Rightarrow> floatval_t \<Rightarrow> floatval_t option" where
  "fsub rnd x y = rnd (x - y)"

definition fmul :: "rounding \<Rightarrow> floatval_t \<Rightarrow> floatval_t \<Rightarrow> floatval_t option" where
  "fmul rnd x y = rnd (x * y)"

definition fdiv :: "rounding \<Rightarrow> floatval_t \<Rightarrow> floatval_t \<Rightarrow> floatval_t option" where
  "fdiv rnd x y = (if y = 0 then None else rnd (x / y))"

subsection \<open>Array access\<close>

definition INT_MAX :: int where
  "INT_MAX = 2147483647"

definition array_read :: "'a list \<Rightarrow> int \<Rightarrow> 'a option" where
  "array_read xs i = (if 0 \<le> i \<and> nat i < length xs then Some (xs ! nat i) else None)"

text \<open>\<^verbatim>\<open>xs[i] += v\<close>.\<close>

definition array_add ::
  "rounding \<Rightarrow> floatval_t list \<Rightarrow> int \<Rightarrow> floatval_t \<Rightarrow> floatval_t list option" where
  "array_add rnd xs i v =
     (if 0 \<le> i \<and> nat i < length xs
      then do { y \<leftarrow> fadd rnd (xs ! nat i) v; Some (xs[nat i := y]) }
      else None)"

subsection \<open>Vector operations\<close>

text \<open>
  The three operations of \<^verbatim>\<open>vecmath.h\<close> that the trainer calls are not among the
  sources. They work on the first \<open>n\<close> elements of dense arrays, from the first
  element on; an \<open>n\<close> beyond the end of an array is a fault.
\<close>

text \<open>Modelled from the spec: \<^verbatim>\<open>veccopy(y, x, n)\<close> of \<^verbatim>\<open>vecmath.h\<close>, the element-wise
  copy of \<open>x\<close> into \<open>y\<close>.\<close>

definition veccopy :: "floatval_t list \<Rightarrow> floatval_t list \<Rightarrow> int \<Rightarrow> floatval_t list option" where
  "veccopy y x n =
     (if nat n \<le> length y \<and> nat n \<le> length x then Some (take (nat n) x @ drop (nat n) y)
      else None)"

text \<open>Modelled from the spec: the loop of \<^verbatim>\<open>vecasub\<close>, \<^verbatim>\<open>y[i] -= a * x[i]\<close> for every
  element.\<close>

fun asub :: "rounding \<Rightarrow> floatval_t \<Rightarrow> floatval_t list \<Rightarrow> floatval_t list \<Rightarrow> floatval_t list option"
  where
  "asub rnd a (y # ys) (x # xs) =
     do { p \<leftarrow> fmul rnd a x; z \<leftarrow> fsub rnd y p; zs \<leftarrow> asub rnd a ys xs; Some (z # zs) }"
| "asub rnd a _ _ = Some []"

text \<open>Modelled from the spec: \<^verbatim>\<open>vecasub(y, a, x, n)\<close> of \<^verbatim>\<open>vecmath.h\<close>, the
  element-wise scaled subtraction \<open>y -= a * x\<close>.\<close>

definition vecasub ::
  "rounding \<Rightarrow> floatval_t list \<Rightarrow> floatval_t \<Rightarrow> floatval_t list \<Rightarrow> int \<Rightarrow> floatval_t list option"
  where
  "vecasub rnd y a x n =
     (if nat n \<le> length y \<and> nat n \<le> length x
      then do { zs \<leftarrow> asub rnd a (take (nat n) y) (take (nat n) x); Some (zs @ drop (nat n) y) }
      else None)"

text \<open>Modelled from the spec: the loop of \<^verbatim>\<open>vecdot\<close>, \<^verbatim>\<open>s += x[i] * y[i]\<close> for every
  element.\<close>

fun dot :: "rounding \<Rightarrow> floatval_t \<Rightarrow> floatval_t list \<Rightarrow> floatval_t list \<Rightarrow> floatval_t option" where
  "dot rnd s (x # xs) (y # ys) =
     do { p \<leftarrow> fmul rnd x y; t \<leftarrow> fadd rnd s p; dot rnd t xs ys }"
| "dot rnd s _ _ = Some s"

text \<open>Modelled from the spec: \<^verbatim>\<open>vecdot(x, y, n)\<close> of \<^verbatim>\<open>vecmath.h\<close>, the dot
  product.\<close>

definition vecdot :: "rounding \<Rightarrow> floatval_t list \<Rightarrow> floatval_t list \<Rightarrow> int \<Rightarrow> floatval_t option"
  where
  "vecdot rnd x y n =
     (if nat n \<le> length x \<and> nat n \<le> length y
      then dot rnd 0 (take (nat n) x) (take (nat n) y)
      else None)"

subsection \<open>update\_weights and diff\<close>

definition update_weights ::
  "rounding \<Rightarrow> update_data \<Rightarrow> int \<Rightarrow> floatval_t \<Rightarrow> update_data option" where
  "update_weights rnd u fid v = do {
     p \<leftarrow> fmul rnd (ud_c u) v;
     w' \<leftarrow> array_add rnd (ud_w u) fid p;
     q \<leftarrow> fmul rnd (ud_cs u) v;
     ws' \<leftarrow> array_add rnd (ud_ws u) fid q;
     Some (u\<lparr>ud_w := w', ud_ws := ws'\<rparr>)
   }"

function diff_loop :: "int list \<Rightarrow> int list \<Rightarrow> int \<Rightarrow> int \<Rightarrow> int \<Rightarrow> int option" where
  "diff_loop x y n i d =
     (if i < n then
        (case (array_read x i, array_read y i) of
           (Some xi, Some yi) \<Rightarrow> diff_loop x y n (i + 1) (if xi \<noteq> yi then d + 1 else d)
         | _ \<Rightarrow> None)
      else Some d)"
  by pat_completeness auto
termination
  by (relation "measure (\<lambda>(x, y, n, i, d). nat (n - i))") auto

declare diff_loop.simps [simp del]

definition diff :: "int list \<Rightarrow> int list \<Rightarrow> int \<Rightarrow> int option" where
  "diff x y n = diff_loop x y n 0 0"

subsection \<open>The trainer\<close>

text \<open>
  One call of \<^verbatim>\<open>batch->enum_features(batch, seq, labels, update_weights, &ud)\<close>:
  the callback runs on every pair the oracle enumerates.
\<close>

fun run_callback ::
  "rounding \<Rightarrow> update_data \<Rightarrow> (int \<times> floatval_t) list \<Rightarrow> update_data option" where
  "run_callback rnd u [] = Some u"
| "run_callback rnd u ((fid, v) # fs) =
     (case update_weights rnd u fid v of
        None \<Rightarrow> None
      | Some u' \<Rightarrow> run_callback rnd u' fs)"

text \<open>The body of the loop over the instances (\<^verbatim>\<open>for (n = 0;n < N;++n)\<close>).\<close>

definition process_instance ::
  "rounding \<Rightarrow> 'a crf_train_data_t \<Rightarrow> int \<Rightarrow> 'g locals \<Rightarrow> 'g locals option" where
  "process_instance rnd batch n s = do {
     p \<leftarrow> array_read (perm s) n;
     seq \<leftarrow> array_read (seqs batch) p;
     let v = fst (tag batch (ud_w (ud s)) seq (viterbi s));
     let s1 = s\<lparr>viterbi := v, calls := calls s @ [Call_tag]\<rparr>;
     d \<leftarrow> diff (labels seq) v (num_items seq);
     s2 \<leftarrow> (if 0 < d then do {
              u1 \<leftarrow> run_callback rnd ((ud s1)\<lparr>ud_c := 1, ud_cs := of_int (c s1)\<rparr>)
                      (enum_features batch seq (labels seq));
              u2 \<leftarrow> run_callback rnd (u1\<lparr>ud_c := - 1, ud_cs := - of_int (c s1)\<rparr>)
                      (enum_features batch seq v);
              q \<leftarrow> fdiv rnd (of_int d) (of_int (num_items seq));
              l \<leftarrow> fadd rnd (loss s1) q;
              Some (s1\<lparr>ud := u2, loss := l,
                       calls := calls s1 @ [Call_enum_features, Call_enum_features]\<rparr>)
            } else Some s1);
     if c s2 < INT_MAX then Some (s2\<lparr>c := c s2 + 1\<rparr>) else None
   }"

function instance_loop ::
  "rounding \<Rightarrow> 'a crf_train_data_t \<Rightarrow> int \<Rightarrow> 'g locals \<Rightarrow> 'g locals option" where
  "instance_loop rnd batch n s =
     (if n < num_instances batch then
        (case process_instance rnd batch n s of
           None \<Rightarrow> None
         | Some s' \<Rightarrow> instance_loop rnd batch (n + 1) s')
      else Some s)"
  by pat_completeness auto
termination
  by (relation "measure (\<lambda>(rnd, batch, n, s). nat (num_instances batch - n))") auto

declare instance_loop.simps [simp del]

text \<open>
  The convergence test \<^verbatim>\<open>loss / N < opt.epsilon\<close>, with \<^verbatim>\<open>N\<close> converted to
  \<^verbatim>\<open>floatval_t\<close>. For \<open>N = 0\<close> the quotient is, in IEEE 754 arithmetic, a NaN
  when \<open>loss\<close> is zero and an infinity of the sign of \<open>loss\<close> otherwise; a
  comparison with a NaN is false. A quotient that is not finite is an infinity of
  its sign.
\<close>

definition convergence_test :: "rounding \<Rightarrow> floatval_t \<Rightarrow> int \<Rightarrow> floatval_t \<Rightarrow> bool" where
  "convergence_test rnd l N eps =
     (if N = 0 then (if l = 0 then False else l < 0)
      else (case rnd (l / of_int N) of
              Some q \<Rightarrow> q < eps
            | None \<Rightarrow> l / of_int N < 0))"

text \<open>
  One iteration of the outer loop up to the convergence test, in three parts:
  \<^verbatim>\<open>loss = 0.\<close> and the shuffle; the loop over the instances; the averaging into
  \<^verbatim>\<open>wa\<close> and the progress messages.
\<close>

definition epoch_begin :: "'g platform \<Rightarrow> 'a crf_train_data_t \<Rightarrow> 'g locals \<Rightarrow> 'g locals" where
  "epoch_begin pf batch s =
     (let (p, g) = mt_shuffle pf (rng s) (perm s) (num_instances batch) 1
      in s\<lparr>loss := 0, perm := p, rng := g, calls := calls s @ [Call_mt_shuffle]\<rparr>)"

definition epoch_end ::
  "rounding \<Rightarrow> 'a crf_train_data_t \<Rightarrow> int \<Rightarrow> 'g locals \<Rightarrow> 'g locals option" where
  "epoch_end rnd batch i s = do {
     wa1 \<leftarrow> veccopy (wa s) (ud_w (ud s)) (num_features batch);
     a \<leftarrow> fdiv rnd 1 (of_int (c s));
     wa2 \<leftarrow> vecasub rnd wa1 a (ud_ws (ud s)) (num_features batch);
     norm2 \<leftarrow> vecdot rnd wa2 wa2 (num_features batch);
     Some (s\<lparr>wa := wa2,
             calls := calls s @ [Call_logging (Msg_iteration (i + 1) (loss s) norm2)]\<rparr>)
   }"

definition epoch ::
  "rounding \<Rightarrow> 'g platform \<Rightarrow> 'a crf_train_data_t \<Rightarrow> int \<Rightarrow> 'g locals \<Rightarrow> 'g locals option"
  where
  "epoch rnd pf batch i s = do {
     s2 \<leftarrow> instance_loop rnd batch 0 (epoch_begin pf batch s);
     epoch_end rnd batch i s2
   }"

function train_loop ::
  "rounding \<Rightarrow> 'g platform \<Rightarrow> 'a crf_train_data_t \<Rightarrow> option_t \<Rightarrow> int \<Rightarrow> 'g locals \<Rightarrow>
     'g locals option" where
  "train_loop rnd pf batch opt i s =
     (if i < max_iterations opt then
        (case epoch rnd pf batch i s of
           None \<Rightarrow> None
         | Some s' \<Rightarrow>
             if convergence_test rnd (loss s') (num_instances batch) (epsilon opt)
             then Some (s'\<lparr>calls := calls s' @ [Call_logging Msg_terminated]\<rparr>)
             else train_loop rnd pf batch opt (i + 1) s')
      else Some s)"
  by pat_completeness auto
termination
  by (relation "measure (\<lambda>(rnd, pf, batch, opt, i, s). nat (max_iterations opt - i))") auto

declare train_loop.simps [simp del]

text \<open>
  The state after the allocations (\<^verbatim>\<open>calloc\<close> fills with zeros), the messages
  with the parameters and \<^verbatim>\<open>c = 1; ud.w = w; ud.ws = ws;\<close>. The fields \<^verbatim>\<open>ud.c\<close>
  and \<^verbatim>\<open>ud.cs\<close> are not initialised in the source and are written before every
  use; they start at 0 here.
\<close>

definition init_locals :: "'a crf_train_data_t \<Rightarrow> option_t \<Rightarrow> 'g \<Rightarrow> 'g locals" where
  "init_locals batch opt g =
     \<lparr>perm = replicate (nat (num_instances batch)) 0,
      ud = \<lparr>ud_w = replicate (nat (num_features batch)) 0,
            ud_ws = replicate (nat (num_features batch)) 0,
            ud_c = 0, ud_cs = 0\<rparr>,
      wa = replicate (nat (num_features batch)) 0,
      viterbi = replicate (nat (cap_items batch)) 0,
      c = 1,
      loss = 0,
      rng = g,
      calls = [Call_logging (Msg_parameters (max_iterations opt) (epsilon opt))]\<rparr>"

definition crf_train_averaged_perceptron ::
  "rounding \<Rightarrow> 'g platform \<Rightarrow> 'a crf_train_data_t \<Rightarrow> option_t \<Rightarrow> 'g \<Rightarrow> 'g result option"
  where
  "crf_train_averaged_perceptron rnd pf batch opt g =
     (if perm_null pf \<or> w_null pf \<or> ws_null pf \<or> wa_null pf \<or> viterbi_null pf
      then Some \<lparr>ret = CRFERR_OUTOFMEMORY pf, ptr_w = None, res_rng = g, res_calls = []\<rparr>
      else
        (case train_loop rnd pf batch opt 0 (init_locals batch opt g) of
           None \<Rightarrow> None
         | Some s \<Rightarrow>
             Some \<lparr>ret = 0, ptr_w = Some (wa s), res_rng = rng s,
                   res_calls = calls s @ [Call_logging Msg_total]\<rparr>))"

subsection \<open>Reading the recorded calls\<close>

text \<open>
  Every epoch ends with one iteration message and every processed instance is one
  call of the decoder, so the recorded calls tell how many epochs ran, with which
  losses, and how many instances were processed.
\<close>

fun iteration_losses :: "call list \<Rightarrow> floatval_t list" where
  "iteration_losses [] = []"
| "iteration_losses (Call_logging (Msg_iteration i l n2) # cs) = l # iteration_losses cs"
| "iteration_losses (_ # cs) = iteration_losses cs"

definition epochs_run :: "call list \<Rightarrow> nat" where
  "epochs_run cs = length (iteration_losses cs)"

definition instances_processed :: "call list \<Rightarrow> nat" where
  "instances_processed cs = count_list cs Call_tag"

subsection \<open>The words of the specification\<close>

text \<open>
  The number of positions among the first \<open>n\<close> where the predicted label differs
  from the gold label (the Hamming distance over the items of the sequence).
\<close>

definition mismatches :: "int list \<Rightarrow> int list \<Rightarrow> int \<Rightarrow> nat" where
  "mismatches x y n = length (filter (\<lambda>i. x ! i \<noteq> y ! i) [0..<nat n])"

text \<open>
  What becomes of the entry \<open>x\<close> of feature \<open>f\<close> when \<^verbatim>\<open>x += m * value\<close> is applied
  for every visit of \<open>f\<close> in an enumeration of the feature oracle, in order (the
  oracle may visit a feature several times, or not at all).
\<close>

fun visits ::
  "rounding \<Rightarrow> floatval_t \<Rightarrow> (int \<times> floatval_t) list \<Rightarrow> nat \<Rightarrow> floatval_t \<Rightarrow> floatval_t option"
  where
  "visits rnd m [] f x = Some x"
| "visits rnd m ((fid, v) # fs) f x =
     (if fid = int f
      then do { p \<leftarrow> fmul rnd m v; y \<leftarrow> fadd rnd x p; visits rnd m fs f y }
      else visits rnd m fs f x)"


subsection \<open>The naive average of the specification\<close>







subsection \<open>Collaborators that keep their contract\<close>

text \<open>
  The trainer relies on its collaborators: the shuffle leaves indices of instances
  in \<^verbatim>\<open>perm\<close>, the label array of an instance and the buffer written by the decoder
  hold at least \<^verbatim>\<open>num_items\<close> entries, and the feature oracle enumerates feature
  identifiers below \<^verbatim>\<open>num_features\<close>.
\<close>

definition well_behaved :: "'g platform \<Rightarrow> 'a crf_train_data_t \<Rightarrow> bool" where
  "well_behaved pf batch \<longleftrightarrow>
     (\<forall>g p n. 0 \<le> n \<and> n < num_instances batch \<longrightarrow>
        (\<exists>q. array_read (fst (mt_shuffle pf g p (num_instances batch) 1)) n = Some q \<and>
             0 \<le> q \<and> nat q < length (seqs batch))) \<and>
     (\<forall>seq \<in> set (seqs batch).
        nat (num_items seq) \<le> length (labels seq) \<and>
        (\<forall>w v. nat (num_items seq) \<le> length (fst (tag batch w seq v))) \<and>
        (\<forall>l. \<forall>(fid, x) \<in> set (enum_features batch seq l). 0 \<le> fid \<and> fid < num_features batch))"

subsection \<open>Example inputs\<close>

text \<open>
  A platform on which every allocation succeeds and the shuffle leaves the identity
  permutation, and one on which the allocation of \<^verbatim>\<open>ws\<close> fails; an empty batch; a batch of one instance of one item with gold label 0,
  feature 0 active under label 0 and feature 1 under any other label, with a decoder
  that always predicts label 1 (\<open>batch_wrong\<close>) or always label 0 (\<open>batch_right\<close>);
  a batch of two such instances with gold labels 0 and 1, on which the decoder that
  predicts label 1 is wrong once and right once (\<open>batch_two\<close>); a batch of one
  instance of four items of which the decoder gets the third wrong (\<open>batch_four\<close>).
\<close>

definition pf_ok :: "unit platform" where
  "pf_ok = \<lparr>perm_null = False, w_null = False, ws_null = False, wa_null = False,
            viterbi_null = False, CRFERR_OUTOFMEMORY = - 2147483647,
            mt_shuffle = (\<lambda>g p n init. (map int [0..<nat n], g))\<rparr>"

definition pf_oom :: "unit platform" where
  "pf_oom = pf_ok\<lparr>ws_null := True\<rparr>"

definition seq_one :: crf_instance_t where
  "seq_one = \<lparr>num_items = 1, labels = [0]\<rparr>"

definition feats_one :: "crf_instance_t \<Rightarrow> int list \<Rightarrow> (int \<times> floatval_t) list" where
  "feats_one s l = (if l = [0] then [(0, 1)] else [(1, 1)])"

definition batch_empty :: "unit crf_train_data_t" where
  "batch_empty = \<lparr>seqs = [], num_instances = 0, num_features = 2, cap_items = 1,
                   tag = (\<lambda>w s v. ([1], 0)), enum_features = feats_one\<rparr>"

definition batch_wrong :: "unit crf_train_data_t" where
  "batch_wrong = \<lparr>seqs = [seq_one], num_instances = 1, num_features = 2, cap_items = 1,
                   tag = (\<lambda>w s v. ([1], 0)), enum_features = feats_one\<rparr>"

definition batch_right :: "unit crf_train_data_t" where
  "batch_right = \<lparr>seqs = [seq_one], num_instances = 1, num_features = 2, cap_items = 1,
                   tag = (\<lambda>w s v. ([0], 0)), enum_features = feats_one\<rparr>"

definition seq_other :: crf_instance_t where
  "seq_other = \<lparr>num_items = 1, labels = [1]\<rparr>"

definition batch_two :: "unit crf_train_data_t" where
  "batch_two = \<lparr>seqs = [seq_one, seq_other], num_instances = 2, num_features = 2,
                 cap_items = 1, tag = (\<lambda>w s v. ([1], 0)), enum_features = feats_one\<rparr>"

definition seq_four :: crf_instance_t where
  "seq_four = \<lparr>num_items = 4, labels = [0, 0, 0, 0]\<rparr>"

definition feats_four :: "crf_instance_t \<Rightarrow> int list \<Rightarrow> (int \<times> floatval_t) list" where
  "feats_four s l = (if l = [0, 0, 0, 0] then [(0, 1)] else [(1, 1)])"

definition batch_four :: "unit crf_train_data_t" where
  "batch_four = \<lparr>seqs = [seq_four], num_instances = 1, num_features = 2, cap_items = 4,
                  tag = (\<lambda>w s v. ([0, 0, 1, 0], 0)), enum_features = feats_four\<rparr>"

section \<open>Properties\<close>

subsection \<open>Rounding\<close>

lemma bit_length_nonneg: "0 \<le> bit_length n"
proof (induction n rule: bit_length.induct)
  case (1 n)
  then show ?case
    by (subst bit_length.simps) simp
qed

lemma pow2_pos: "0 < pow2 e"
  by (simp add: pow2_def)

lemma pow2_le_one: "e \<le> 0 \<Longrightarrow> pow2 e \<le> 1"
  by (simp add: pow2_def divide_le_eq)

lemma ilog2_le_zero: "0 < x \<Longrightarrow> x \<le> 1 \<Longrightarrow> ilog2 x \<le> 0"
proof -
  assume "0 < x" "x \<le> 1"
  have "bit_length 1 = 1"
    by (simp add: bit_length.simps)
  then show ?thesis
    using \<open>x \<le> 1\<close> bit_length_nonneg[of "\<lceil>1 / x\<rceil> - 1"] by (auto simp: ilog2_def)
qed

lemma round_ties_even_bounds:
  "0 \<le> m \<Longrightarrow> 0 \<le> round_ties_even m" "of_int (round_ties_even m) \<le> m + 1"
proof -
  have "of_int (round_ties_even m) \<le> of_int \<lfloor>m\<rfloor> + (1::real)"
    by (simp add: round_ties_even_def Let_def)
  then show "of_int (round_ties_even m) \<le> m + 1"
    by linarith
  show "0 \<le> round_ties_even m" if "0 \<le> m"
    using that by (auto simp: round_ties_even_def Let_def)
qed

lemma round_binary64_zero: "round_binary64 0 = 0"
  by (simp add: round_binary64_def)

lemma round_binary64_nonneg: "0 \<le> x \<Longrightarrow> 0 \<le> round_binary64 x"
  using pow2_pos
  by (auto simp: round_binary64_def Let_def sgn_if round_ties_even_bounds(1) less_imp_le)

lemma round_binary64_minus: "round_binary64 (- x) = - round_binary64 x"
  by (simp add: round_binary64_def Let_def sgn_if)

lemma round_binary64_le_two:
  assumes "0 \<le> x" and "x \<le> 1"
  shows "round_binary64 x \<le> 2"
proof (cases "x = 0")
  case True
  then show ?thesis by (simp add: round_binary64_zero)
next
  case False
  with assms have pos: "0 < x" by simp
  define e where "e = max (ilog2 x - 52) (- 1074)"
  have "e \<le> 0"
    using ilog2_le_zero[OF pos assms(2)] by (simp add: e_def)
  then have p1: "pow2 e \<le> 1"
    by (rule pow2_le_one)
  have "of_int (round_ties_even (x / pow2 e)) * pow2 e \<le> (x / pow2 e + 1) * pow2 e"
    using round_ties_even_bounds(2)[of "x / pow2 e"] pow2_pos[of e]
    by (simp add: mult_right_mono less_imp_le)
  also have "\<dots> = x + pow2 e"
    using pow2_pos[of e] by (simp add: field_simps)
  finally have "of_int (round_ties_even (x / pow2 e)) * pow2 e \<le> 2"
    using assms(2) p1 by linarith
  then show ?thesis
    using pos by (simp add: round_binary64_def Let_def e_def[symmetric])
qed

lemma DBL_MAX_ge_two: "2 \<le> DBL_MAX"
  by (simp add: DBL_MAX_def)

lemma binary64_zero: "binary64 0 = Some 0"
  using DBL_MAX_ge_two by (simp add: binary64_def round_binary64_zero)

lemma binary64_nonneg: "binary64 x = Some y \<Longrightarrow> 0 \<le> x \<Longrightarrow> 0 \<le> y"
  by (auto simp: binary64_def Let_def round_binary64_nonneg split: if_splits)

lemma binary64_small: "\<bar>x\<bar> \<le> 1 \<Longrightarrow> \<exists>y. binary64 x = Some y"
proof -
  assume a: "\<bar>x\<bar> \<le> 1"
  have "\<bar>round_binary64 x\<bar> \<le> 2"
  proof (cases "0 \<le> x")
    case True
    with a round_binary64_le_two[of x] round_binary64_nonneg[of x] show ?thesis by simp
  next
    case False
    with a round_binary64_le_two[of "- x"] round_binary64_nonneg[of "- x"] show ?thesis
      by (simp add: round_binary64_minus)
  qed
  then show ?thesis
    using DBL_MAX_ge_two by (simp add: binary64_def Let_def)
qed

lemmas round_defs =
  binary64_def round_binary64_def ilog2_def bit_length.simps pow2_def round_ties_even_def
  DBL_MAX_def Let_def

lemma binary64_values:
  "binary64 1 = Some 1" "binary64 (- 1) = Some (- 1)" "binary64 2 = Some 2"
  "binary64 (- 2) = Some (- 2)" "binary64 3 = Some 3" "binary64 (- 3) = Some (- 3)"
  "binary64 (1 / 2) = Some (1 / 2)" "binary64 (- (1 / 2)) = Some (- (1 / 2))"
  "binary64 (1 / 4) = Some (1 / 4)"
  by (simp_all add: round_defs)

text \<open>The largest double is kept; \<open>2\<^sup>1\<^sup>0\<^sup>2\<^sup>4\<close> is out of range.\<close>

lemma binary64_overflow:
  "binary64 (2 ^ 1024) = None"
  "binary64 ((2 ^ 53 - 1) * 2 ^ 971) = Some ((2 ^ 53 - 1) * 2 ^ 971)"
  by (simp_all add: round_defs)

subsection \<open>Loops that do not run, counting calls\<close>

lemma train_loop_done: "\<not> i < max_iterations opt \<Longrightarrow> train_loop rnd pf batch opt i s = Some s"
  by (simp add: train_loop.simps)

lemma instance_loop_done: "\<not> n < num_instances batch \<Longrightarrow> instance_loop rnd batch n s = Some s"
  by (simp add: instance_loop.simps)

lemma iteration_losses_append:
  "iteration_losses (xs @ ys) = iteration_losses xs @ iteration_losses ys"
  by (induction xs rule: iteration_losses.induct) simp_all

lemma epochs_run_append: "epochs_run (xs @ ys) = epochs_run xs + epochs_run ys"
  by (simp add: epochs_run_def iteration_losses_append)

lemma instances_processed_append:
  "instances_processed (xs @ ys) = instances_processed xs + instances_processed ys"
  by (simp add: instances_processed_def)

lemma epoch_begin_fields:
  "ud (epoch_begin pf batch s) = ud s"
  "wa (epoch_begin pf batch s) = wa s"
  "c (epoch_begin pf batch s) = c s"
  "viterbi (epoch_begin pf batch s) = viterbi s"
  "loss (epoch_begin pf batch s) = 0"
  "calls (epoch_begin pf batch s) = calls s @ [Call_mt_shuffle]"
  by (simp_all add: epoch_begin_def split: prod.splits)

subsection \<open>diff counts the differing labels\<close>

lemma diff_loop_bounds:
  "diff_loop x y n i d = Some d' \<Longrightarrow> d \<le> d' \<and> (d < d' \<longrightarrow> i < n) \<and> d' - d \<le> max 0 (n - i)"
proof (induction x y n i d rule: diff_loop.induct)
  case (1 x y n i d)
  show ?case
  proof (cases "i < n")
    case False
    with "1.prems" show ?thesis by (simp add: diff_loop.simps)
  next
    case True
    from "1.prems" True obtain xi yi where r: "array_read x i = Some xi" "array_read y i = Some yi"
      and rec: "diff_loop x y n (i + 1) (if xi \<noteq> yi then d + 1 else d) = Some d'"
      by (subst (asm) diff_loop.simps) (auto split: option.splits)
    from "1.IH"[OF True _ r(1) r(2) rec] r True show ?thesis
      by (auto split: if_splits)
  qed
qed

lemma diff_bounds: "diff x y n = Some d \<Longrightarrow> 0 \<le> d \<and> (0 < d \<longrightarrow> 0 < n) \<and> d \<le> max 0 n"
  using diff_loop_bounds[of x y n 0 0 d] by (simp add: diff_def)

lemma diff_loop_same:
  "diff_loop x y n i d = Some d' \<Longrightarrow> 0 \<le> i \<Longrightarrow>
   (\<And>j. nat i \<le> j \<Longrightarrow> j < nat n \<Longrightarrow> x ! j = y ! j) \<Longrightarrow> d' = d"
proof (induction x y n i d rule: diff_loop.induct)
  case (1 x y n i d)
  show ?case
  proof (cases "i < n")
    case False
    with "1.prems" show ?thesis by (simp add: diff_loop.simps)
  next
    case True
    from "1.prems"(1) True obtain xi yi where r: "array_read x i = Some xi" "array_read y i = Some yi"
      and rec: "diff_loop x y n (i + 1) (if xi \<noteq> yi then d + 1 else d) = Some d'"
      by (subst (asm) diff_loop.simps) (auto split: option.splits)
    have "x ! nat i = y ! nat i"
      using "1.prems"(2) True by (intro "1.prems"(3)) auto
    with r have eq: "xi = yi"
      by (auto simp: array_read_def split: if_splits)
    have "d' = (if xi \<noteq> yi then d + 1 else d)"
    proof (rule "1.IH"[OF True _ r(1) r(2) rec])
      show "0 \<le> i + 1" using "1.prems"(2) by simp
      fix j assume "nat (i + 1) \<le> j" "j < nat n"
      then show "x ! j = y ! j"
        using "1.prems"(2) by (intro "1.prems"(3)) auto
    qed simp
    with eq show ?thesis by simp
  qed
qed

lemma diff_same:
  assumes "diff x y n = Some d" and "take (nat n) x = take (nat n) y"
  shows "d = 0"
proof -
  have "\<And>j. j < nat n \<Longrightarrow> x ! j = y ! j"
    using assms(2) by (metis nth_take)
  then show ?thesis
    using diff_loop_same[of x y n 0 0 d] assms(1) by (simp add: diff_def)
qed

lemma diff_loop_count:
  "diff_loop x y n i d = Some d' \<Longrightarrow> 0 \<le> i \<Longrightarrow>
   d' = d + int (length (filter (\<lambda>j. x ! j \<noteq> y ! j) [nat i..<nat n]))"
proof (induction x y n i d rule: diff_loop.induct)
  case (1 x y n i d)
  show ?case
  proof (cases "i < n")
    case False
    with "1.prems" show ?thesis by (simp add: diff_loop.simps)
  next
    case True
    from "1.prems"(1) True obtain xi yi where r: "array_read x i = Some xi" "array_read y i = Some yi"
      and rec: "diff_loop x y n (i + 1) (if xi \<noteq> yi then d + 1 else d) = Some d'"
      by (subst (asm) diff_loop.simps) (auto split: option.splits)
    from r have v: "xi = x ! nat i" "yi = y ! nat i"
      by (auto simp: array_read_def split: if_splits)
    have "d' = (if xi \<noteq> yi then d + 1 else d) +
        int (length (filter (\<lambda>j. x ! j \<noteq> y ! j) [nat (i + 1)..<nat n]))"
      using "1.prems"(2) by (intro "1.IH"[OF True _ r rec]) simp_all
    moreover have "[nat i..<nat n] = nat i # [nat (i + 1)..<nat n]"
      using True "1.prems"(2) by (simp add: upt_conv_Cons nat_add_distrib)
    ultimately show ?thesis
      by (simp add: v)
  qed
qed

lemma diff_count: "diff x y n = Some d \<Longrightarrow> d = int (mismatches x y n)"
  using diff_loop_count[of x y n 0 0 d] by (simp add: diff_def mismatches_def)

subsection \<open>The callback and one instance\<close>

lemma array_add_Some:
  assumes "array_add rnd xs i v = Some ys"
  shows "length ys = length xs" "0 \<le> i" "nat i < length xs"
    "fadd rnd (xs ! nat i) v = Some (ys ! nat i)"
    "f \<noteq> nat i \<Longrightarrow> ys ! f = xs ! f"
  using assms by (auto simp: array_add_def bind_eq_Some_conv split: if_splits)

lemma update_weights_Some:
  assumes "update_weights rnd u fid v = Some u'"
  shows "length (ud_w u') = length (ud_w u)" "length (ud_ws u') = length (ud_ws u)"
    "ud_c u' = ud_c u" "ud_cs u' = ud_cs u"
    "f < length (ud_w u) \<Longrightarrow>
       (if fid = int f
        then \<exists>p. fmul rnd (ud_c u) v = Some p \<and> fadd rnd (ud_w u ! f) p = Some (ud_w u' ! f)
        else ud_w u' ! f = ud_w u ! f)"
    "f < length (ud_ws u) \<Longrightarrow>
       (if fid = int f
        then \<exists>q. fmul rnd (ud_cs u) v = Some q \<and> fadd rnd (ud_ws u ! f) q = Some (ud_ws u' ! f)
        else ud_ws u' ! f = ud_ws u ! f)"
proof -
  from assms obtain p w' q ws' where
    p: "fmul rnd (ud_c u) v = Some p" and w': "array_add rnd (ud_w u) fid p = Some w'"
    and q: "fmul rnd (ud_cs u) v = Some q" and ws': "array_add rnd (ud_ws u) fid q = Some ws'"
    and u': "u' = u\<lparr>ud_w := w', ud_ws := ws'\<rparr>"
    by (auto simp: update_weights_def bind_eq_Some_conv)
  note a = array_add_Some[OF w']
  note b = array_add_Some[OF ws']
  show "length (ud_w u') = length (ud_w u)" "length (ud_ws u') = length (ud_ws u)"
    "ud_c u' = ud_c u" "ud_cs u' = ud_cs u"
    using a(1) b(1) by (simp_all add: u')
  show "if fid = int f
        then \<exists>p. fmul rnd (ud_c u) v = Some p \<and> fadd rnd (ud_w u ! f) p = Some (ud_w u' ! f)
        else ud_w u' ! f = ud_w u ! f"
    using p a(2,4) a(5)[of f] by (auto simp: u')
  show "if fid = int f
        then \<exists>q. fmul rnd (ud_cs u) v = Some q \<and> fadd rnd (ud_ws u ! f) q = Some (ud_ws u' ! f)
        else ud_ws u' ! f = ud_ws u ! f"
    using q b(2,4) b(5)[of f] by (auto simp: u')
qed

lemma run_callback_Some:
  "run_callback rnd u fs = Some u' \<Longrightarrow>
     length (ud_w u') = length (ud_w u) \<and> length (ud_ws u') = length (ud_ws u) \<and>
     ud_c u' = ud_c u \<and> ud_cs u' = ud_cs u \<and>
     (\<forall>f < length (ud_w u). visits rnd (ud_c u) fs f (ud_w u ! f) = Some (ud_w u' ! f)) \<and>
     (\<forall>f < length (ud_ws u). visits rnd (ud_cs u) fs f (ud_ws u ! f) = Some (ud_ws u' ! f))"
proof (induction rnd u fs rule: run_callback.induct)
  case (1 rnd u)
  then show ?case by simp
next
  case (2 rnd u fid v fs)
  from "2.prems" obtain u1 where u1: "update_weights rnd u fid v = Some u1"
    and rc: "run_callback rnd u1 fs = Some u'"
    by (auto split: option.splits)
  note a = update_weights_Some[OF u1]
  note b = "2.IH"[OF u1 rc]
  have w: "visits rnd (ud_c u) ((fid, v) # fs) f (ud_w u ! f) = Some (ud_w u' ! f)"
    if "f < length (ud_w u)" for f
    using a(5)[of f] that b a(1,3) by (auto simp: bind_eq_Some_conv)
  have ws: "visits rnd (ud_cs u) ((fid, v) # fs) f (ud_ws u ! f) = Some (ud_ws u' ! f)"
    if "f < length (ud_ws u)" for f
    using a(6)[of f] that b a(2,4) by (auto simp: bind_eq_Some_conv)
  show ?case
    using a(1-4) b w ws by simp
qed

lemma process_instance_Some:
  assumes "process_instance rnd batch n s = Some s'"
  shows "\<exists>p seq d v. array_read (perm s) n = Some p \<and> array_read (seqs batch) p = Some seq \<and>
    v = fst (tag batch (ud_w (ud s)) seq (viterbi s)) \<and>
    diff (labels seq) v (num_items seq) = Some d \<and> c s < INT_MAX \<and>
    (if 0 < d then
       (\<exists>u1 u2 q l.
          run_callback rnd ((ud s)\<lparr>ud_c := 1, ud_cs := of_int (c s)\<rparr>)
            (enum_features batch seq (labels seq)) = Some u1 \<and>
          run_callback rnd (u1\<lparr>ud_c := - 1, ud_cs := - of_int (c s)\<rparr>)
            (enum_features batch seq v) = Some u2 \<and>
          fdiv rnd (of_int d) (of_int (num_items seq)) = Some q \<and>
          fadd rnd (loss s) q = Some l \<and>
          s' = s\<lparr>viterbi := v,
                 calls := calls s @ [Call_tag, Call_enum_features, Call_enum_features],
                 ud := u2, loss := l, c := c s + 1\<rparr>)
     else s' = s\<lparr>viterbi := v, calls := calls s @ [Call_tag], c := c s + 1\<rparr>)"
proof -
  obtain p where p: "array_read (perm s) n = Some p"
    using assms by (cases "array_read (perm s) n") (simp_all add: process_instance_def)
  obtain seq where q: "array_read (seqs batch) p = Some seq"
    using assms p by (cases "array_read (seqs batch) p") (simp_all add: process_instance_def)
  define v where "v = fst (tag batch (ud_w (ud s)) seq (viterbi s))"
  obtain d where d: "diff (labels seq) v (num_items seq) = Some d"
    using assms p q unfolding v_def
    by (cases "diff (labels seq) (fst (tag batch (ud_w (ud s)) seq (viterbi s))) (num_items seq)")
      (simp_all add: process_instance_def Let_def)
  show ?thesis
  proof (cases "0 < d")
    case True
    with assms p q d show ?thesis
      unfolding v_def
      by (simp add: process_instance_def Let_def bind_eq_Some_conv split: if_splits) auto
  next
    case False
    with assms p q d show ?thesis
      unfolding v_def
      by (simp add: process_instance_def Let_def split: if_splits)
  qed
qed

lemma process_instance_frame:
  assumes "process_instance rnd batch n s = Some s'"
  shows "c s' = c s + 1" "c s < INT_MAX" "wa s' = wa s" "perm s' = perm s" "rng s' = rng s"
    "instances_processed (calls s') = instances_processed (calls s) + 1"
    "iteration_losses (calls s') = iteration_losses (calls s)"
    "length (ud_w (ud s')) = length (ud_w (ud s))"
    "length (ud_ws (ud s')) = length (ud_ws (ud s))"
proof -
  from process_instance_Some[OF assms] obtain p seq d v where
    lt: "c s < INT_MAX"
    and r: "if 0 < d then
       (\<exists>u1 u2 q l.
          run_callback rnd ((ud s)\<lparr>ud_c := 1, ud_cs := of_int (c s)\<rparr>)
            (enum_features batch seq (labels seq)) = Some u1 \<and>
          run_callback rnd (u1\<lparr>ud_c := - 1, ud_cs := - of_int (c s)\<rparr>)
            (enum_features batch seq v) = Some u2 \<and>
          fdiv rnd (of_int d) (of_int (num_items seq)) = Some q \<and>
          fadd rnd (loss s) q = Some l \<and>
          s' = s\<lparr>viterbi := v,
                 calls := calls s @ [Call_tag, Call_enum_features, Call_enum_features],
                 ud := u2, loss := l, c := c s + 1\<rparr>)
     else s' = s\<lparr>viterbi := v, calls := calls s @ [Call_tag], c := c s + 1\<rparr>"
    by blast
  have no: "s' = s\<lparr>viterbi := v, calls := calls s @ [Call_tag], c := c s + 1\<rparr>"
    if "\<not> 0 < d"
    using r that by simp
  have yes: "\<exists>u1 u2 l.
       run_callback rnd ((ud s)\<lparr>ud_c := 1, ud_cs := of_int (c s)\<rparr>)
         (enum_features batch seq (labels seq)) = Some u1 \<and>
       run_callback rnd (u1\<lparr>ud_c := - 1, ud_cs := - of_int (c s)\<rparr>)
         (enum_features batch seq v) = Some u2 \<and>
       s' = s\<lparr>viterbi := v,
              calls := calls s @ [Call_tag, Call_enum_features, Call_enum_features],
              ud := u2, loss := l, c := c s + 1\<rparr>"
    if "0 < d"
    using r that by auto
  show "c s < INT_MAX" by (rule lt)
  show "c s' = c s + 1" "wa s' = wa s" "perm s' = perm s" "rng s' = rng s"
    "instances_processed (calls s') = instances_processed (calls s) + 1"
    "iteration_losses (calls s') = iteration_losses (calls s)"
    using no yes by (cases "0 < d"; auto simp: instances_processed_def iteration_losses_append)+
  show "length (ud_w (ud s')) = length (ud_w (ud s))"
    "length (ud_ws (ud s')) = length (ud_ws (ud s))"
    using no yes by (cases "0 < d"; auto dest!: run_callback_Some)+
qed

lemma instance_loop_frame:
  "instance_loop rnd batch n s = Some s' \<Longrightarrow>
     c s' = c s + max 0 (num_instances batch - n) \<and> wa s' = wa s \<and>
     instances_processed (calls s') =
       instances_processed (calls s) + nat (num_instances batch - n) \<and>
     iteration_losses (calls s') = iteration_losses (calls s) \<and>
     length (ud_w (ud s')) = length (ud_w (ud s)) \<and>
     length (ud_ws (ud s')) = length (ud_ws (ud s))"
proof (induction rnd batch n s rule: instance_loop.induct)
  case (1 rnd batch n s)
  show ?case
  proof (cases "n < num_instances batch")
    case False
    with "1.prems" show ?thesis by (simp add: instance_loop_done)
  next
    case True
    from "1.prems" True obtain s1 where p: "process_instance rnd batch n s = Some s1"
      and l: "instance_loop rnd batch (n + 1) s1 = Some s'"
      by (subst (asm) instance_loop.simps) (auto split: option.splits)
    note a = process_instance_frame[OF p]
    note b = "1.IH"[OF True p l]
    have "nat (num_instances batch - n) = Suc (nat (num_instances batch - (n + 1)))"
      using True by simp
    then show ?thesis
      using a b True by simp
  qed
qed

subsection \<open>Epochs and the outer loop\<close>

lemma epoch_end_Some:
  assumes "epoch_end rnd batch i s = Some s'"
  shows "ud s' = ud s" "c s' = c s" "loss s' = loss s" "perm s' = perm s" "rng s' = rng s"
    "viterbi s' = viterbi s"
    "\<exists>n2. calls s' = calls s @ [Call_logging (Msg_iteration (i + 1) (loss s) n2)]"
  using assms by (auto simp: epoch_end_def bind_eq_Some_conv)

lemma epoch_Some:
  assumes "epoch rnd pf batch i s = Some s'"
  shows "\<exists>s2. instance_loop rnd batch 0 (epoch_begin pf batch s) = Some s2 \<and>
     epoch_end rnd batch i s2 = Some s'"
  using assms by (auto simp: epoch_def bind_eq_Some_conv)

lemma epoch_frame:
  assumes "epoch rnd pf batch i s = Some s'"
  shows "c s' = c s + max 0 (num_instances batch)"
    "instances_processed (calls s') = instances_processed (calls s) + nat (num_instances batch)"
    "iteration_losses (calls s') = iteration_losses (calls s) @ [loss s']"
    "length (ud_w (ud s')) = length (ud_w (ud s))"
    "length (ud_ws (ud s')) = length (ud_ws (ud s))"
proof -
  from epoch_Some[OF assms] obtain s2 where
    l: "instance_loop rnd batch 0 (epoch_begin pf batch s) = Some s2"
    and e: "epoch_end rnd batch i s2 = Some s'"
    by blast
  note a = instance_loop_frame[OF l]
  note b = epoch_end_Some[OF e]
  from b(7) obtain n2 where
    n2: "calls s' = calls s2 @ [Call_logging (Msg_iteration (i + 1) (loss s2) n2)]"
    by blast
  show "c s' = c s + max 0 (num_instances batch)"
    using a b by (simp add: epoch_begin_fields)
  show "instances_processed (calls s') = instances_processed (calls s) + nat (num_instances batch)"
    using a n2 by (simp add: epoch_begin_fields instances_processed_def)
  show "iteration_losses (calls s') = iteration_losses (calls s) @ [loss s']"
    using a b(3) n2 by (simp add: epoch_begin_fields iteration_losses_append)
  show "length (ud_w (ud s')) = length (ud_w (ud s))"
    "length (ud_ws (ud s')) = length (ud_ws (ud s))"
    using a b by (simp_all add: epoch_begin_fields)
qed

lemma train_loop_Some:
  assumes "train_loop rnd pf batch opt i s = Some s'" and "i < max_iterations opt"
  shows "\<exists>s1. epoch rnd pf batch i s = Some s1 \<and>
    (if convergence_test rnd (loss s1) (num_instances batch) (epsilon opt)
     then s' = s1\<lparr>calls := calls s1 @ [Call_logging Msg_terminated]\<rparr>
     else train_loop rnd pf batch opt (i + 1) s1 = Some s')"
  using assms by (subst (asm) train_loop.simps) (auto split: option.splits if_splits)

lemma train_loop_counter:
  "train_loop rnd pf batch opt i s = Some s' \<Longrightarrow>
     c s \<le> c s' \<and>
     c s' - c s = int (instances_processed (calls s')) - int (instances_processed (calls s))"
proof (induction rnd pf batch opt i s rule: train_loop.induct)
  case (1 rnd pf batch opt i s)
  show ?case
  proof (cases "i < max_iterations opt")
    case False
    with "1.prems" show ?thesis by (simp add: train_loop_done)
  next
    case True
    from train_loop_Some[OF "1.prems" True] obtain s1 where
      e: "epoch rnd pf batch i s = Some s1"
      and r: "if convergence_test rnd (loss s1) (num_instances batch) (epsilon opt)
        then s' = s1\<lparr>calls := calls s1 @ [Call_logging Msg_terminated]\<rparr>
        else train_loop rnd pf batch opt (i + 1) s1 = Some s'"
      by blast
    note a = epoch_frame[OF e]
    show ?thesis
    proof (cases "convergence_test rnd (loss s1) (num_instances batch) (epsilon opt)")
      case yes: True
      with r a(1,2) show ?thesis
        by (simp add: instances_processed_def)
    next
      case no: False
      with r have t: "train_loop rnd pf batch opt (i + 1) s1 = Some s'" by simp
      from "1.IH"[OF True e no t] a(1,2) show ?thesis
        by (auto simp: max_def split: if_splits)
    qed
  qed
qed

subsection \<open>Runs without fault\<close>

text \<open>
  With collaborators that keep their contract, as long as the counter cannot pass
  \<^verbatim>\<open>INT_MAX\<close> and no arithmetic operation leaves the range of the rounding, no fault
  occurs: every loop returns a state and the trainer returns a result. In
  particular every such run in exact arithmetic returns.
\<close>

lemma diff_loop_total:
  "0 \<le> i \<Longrightarrow> nat n \<le> length x \<Longrightarrow> nat n \<le> length y \<Longrightarrow> \<exists>d'. diff_loop x y n i d = Some d'"
proof (induction x y n i d rule: diff_loop.induct)
  case (1 x y n i d)
  show ?case
  proof (cases "i < n")
    case False
    then show ?thesis by (simp add: diff_loop.simps)
  next
    case True
    with "1.prems" have r: "array_read x i = Some (x ! nat i)" "array_read y i = Some (y ! nat i)"
      by (simp_all add: array_read_def)
    have "\<exists>d'. diff_loop x y n (i + 1) (if x ! nat i \<noteq> y ! nat i then d + 1 else d) = Some d'"
      using "1.prems" by (intro "1.IH"[OF True _ r]) simp_all
    then show ?thesis
      using True r by (subst diff_loop.simps) simp
  qed
qed

lemma diff_total: "nat n \<le> length x \<Longrightarrow> nat n \<le> length y \<Longrightarrow> \<exists>d. diff x y n = Some d"
  unfolding diff_def by (rule diff_loop_total) simp_all

lemma update_weights_total:
  assumes "\<forall>x. \<exists>y. rnd x = Some y"
    and "0 \<le> fid" "nat fid < length (ud_w u)" "nat fid < length (ud_ws u)"
  shows "\<exists>u'. update_weights rnd u fid v = Some u'"
proof -
  obtain p where p: "fmul rnd (ud_c u) v = Some p"
    using assms(1) unfolding fmul_def by blast
  obtain y where y: "fadd rnd (ud_w u ! nat fid) p = Some y"
    using assms(1) unfolding fadd_def by blast
  obtain q where q: "fmul rnd (ud_cs u) v = Some q"
    using assms(1) unfolding fmul_def by blast
  obtain z where z: "fadd rnd (ud_ws u ! nat fid) q = Some z"
    using assms(1) unfolding fadd_def by blast
  show ?thesis
    using assms(2-4) p y q z by (simp add: update_weights_def array_add_def)
qed

lemma run_callback_total:
  "\<forall>x. \<exists>y. rnd x = Some y \<Longrightarrow>
   (\<forall>(fid, v) \<in> set fs. 0 \<le> fid \<and> nat fid < length (ud_w u) \<and> nat fid < length (ud_ws u)) \<Longrightarrow>
   \<exists>u'. run_callback rnd u fs = Some u'"
proof (induction rnd u fs rule: run_callback.induct)
  case (1 rnd u)
  then show ?case by simp
next
  case (2 rnd u fid v fs)
  from "2.prems"(2) have b: "0 \<le> fid" "nat fid < length (ud_w u)" "nat fid < length (ud_ws u)"
    by simp_all
  from update_weights_total[OF "2.prems"(1) b] obtain u1 where
    u1: "update_weights rnd u fid v = Some u1"
    by blast
  note a = update_weights_Some(1,2)[OF u1]
  have "\<exists>u'. run_callback rnd u1 fs = Some u'"
    using "2.prems" a by (intro "2.IH"[OF u1]) auto
  then show ?case
    using u1 by simp
qed

lemma process_instance_total:
  assumes tot: "\<forall>x. \<exists>y. rnd x = Some y"
    and wb: "well_behaved pf batch"
    and p: "array_read (perm s) n = Some p" "0 \<le> p" "nat p < length (seqs batch)"
    and len: "length (ud_w (ud s)) = nat (num_features batch)"
      "length (ud_ws (ud s)) = nat (num_features batch)"
    and c: "c s < INT_MAX"
  shows "\<exists>s'. process_instance rnd batch n s = Some s'"
proof -
  let ?seq = "seqs batch ! nat p"
  let ?v = "fst (tag batch (ud_w (ud s)) ?seq (viterbi s))"
  have q: "array_read (seqs batch) p = Some ?seq"
    using p by (simp add: array_read_def)
  have m: "?seq \<in> set (seqs batch)"
    using p by simp
  from wb m have l: "nat (num_items ?seq) \<le> length (labels ?seq)"
    "nat (num_items ?seq) \<le> length ?v"
    and fe: "\<And>l. \<forall>(fid, x) \<in> set (enum_features batch ?seq l). 0 \<le> fid \<and> fid < num_features batch"
    unfolding well_behaved_def by blast+
  from diff_total[OF l] obtain d where d: "diff (labels ?seq) ?v (num_items ?seq) = Some d"
    by blast
  have "\<exists>u1. run_callback rnd ((ud s)\<lparr>ud_c := 1, ud_cs := of_int (c s)\<rparr>)
      (enum_features batch ?seq (labels ?seq)) = Some u1"
    using fe[of "labels ?seq"] len by (intro run_callback_total[OF tot]) auto
  then obtain u1 where u1: "run_callback rnd ((ud s)\<lparr>ud_c := 1, ud_cs := of_int (c s)\<rparr>)
      (enum_features batch ?seq (labels ?seq)) = Some u1"
    by blast
  note a = run_callback_Some[OF u1, simplified]
  have "\<exists>u2. run_callback rnd (u1\<lparr>ud_c := - 1, ud_cs := - of_int (c s)\<rparr>)
      (enum_features batch ?seq ?v) = Some u2"
    using fe[of ?v] len a by (intro run_callback_total[OF tot]) auto
  then obtain u2 where u2: "run_callback rnd (u1\<lparr>ud_c := - 1, ud_cs := - of_int (c s)\<rparr>)
      (enum_features batch ?seq ?v) = Some u2"
    by blast
  show ?thesis
  proof (cases "0 < d")
    case False
    then show ?thesis
      using p(1) q d c by (simp add: process_instance_def Let_def)
  next
    case True
    with diff_bounds[OF d] have "num_items ?seq \<noteq> 0" by auto
    then obtain qq where qq: "fdiv rnd (of_int d) (of_int (num_items ?seq)) = Some qq"
      using tot unfolding fdiv_def by (metis of_int_eq_0_iff)
    obtain ll where ll: "fadd rnd (loss s) qq = Some ll"
      using tot unfolding fadd_def by blast
    show ?thesis
      using True p(1) q d u1 u2 qq ll c by (simp add: process_instance_def Let_def)
  qed
qed

lemma instance_loop_total:
  "\<forall>x. \<exists>y. rnd x = Some y \<Longrightarrow> well_behaved pf batch \<Longrightarrow> 0 \<le> n \<Longrightarrow>
   (\<forall>k. 0 \<le> k \<and> k < num_instances batch \<longrightarrow>
      (\<exists>q. array_read (perm s) k = Some q \<and> 0 \<le> q \<and> nat q < length (seqs batch))) \<Longrightarrow>
   length (ud_w (ud s)) = nat (num_features batch) \<Longrightarrow>
   length (ud_ws (ud s)) = nat (num_features batch) \<Longrightarrow>
   c s + max 0 (num_instances batch - n) \<le> INT_MAX \<Longrightarrow>
   \<exists>s'. instance_loop rnd batch n s = Some s'"
proof (induction rnd batch n s rule: instance_loop.induct)
  case (1 rnd batch n s)
  show ?case
  proof (cases "n < num_instances batch")
    case False
    then show ?thesis by (simp add: instance_loop_done)
  next
    case True
    from "1.prems"(3,4) True obtain q where q: "array_read (perm s) n = Some q" "0 \<le> q"
      "nat q < length (seqs batch)"
      by blast
    have "c s < INT_MAX"
      using "1.prems"(7) True by simp
    from process_instance_total[OF "1.prems"(1,2) q "1.prems"(5,6) this]
    obtain s1 where p: "process_instance rnd batch n s = Some s1"
      by blast
    note fr = process_instance_frame[OF p]
    have "\<exists>s'. instance_loop rnd batch (n + 1) s1 = Some s'"
      using "1.prems" fr True by (intro "1.IH"[OF True p]) simp_all
    then show ?thesis
      using True p by (subst instance_loop.simps) simp
  qed
qed

lemma asub_total:
  "\<forall>x. \<exists>y. rnd x = Some y \<Longrightarrow> \<exists>zs. asub rnd a ys xs = Some zs \<and> length zs = min (length ys) (length xs)"
proof (induction rnd a ys xs rule: asub.induct)
  case (1 rnd a y ys x xs)
  obtain p where p: "fmul rnd a x = Some p"
    using "1.prems" unfolding fmul_def by blast
  obtain z where z: "fsub rnd y p = Some z"
    using "1.prems" unfolding fsub_def by blast
  from "1.IH"[OF p z "1.prems"] p z show ?case
    by auto
qed simp_all

lemma dot_total:
  "\<forall>x. \<exists>y. rnd x = Some y \<Longrightarrow> \<exists>r. dot rnd s xs ys = Some r"
proof (induction rnd s xs ys rule: dot.induct)
  case (1 rnd s x xs y ys)
  obtain p where p: "fmul rnd x y = Some p"
    using "1.prems" unfolding fmul_def by blast
  obtain t where t: "fadd rnd s p = Some t"
    using "1.prems" unfolding fadd_def by blast
  from "1.IH"[OF p t "1.prems"] p t show ?case
    by auto
qed simp_all

lemma epoch_end_total:
  assumes "\<forall>x. \<exists>y. rnd x = Some y"
    and "length (ud_w (ud s)) = nat (num_features batch)"
    and "length (ud_ws (ud s)) = nat (num_features batch)"
    and "length (wa s) = nat (num_features batch)"
    and "1 \<le> c s"
  shows "\<exists>s'. epoch_end rnd batch i s = Some s' \<and> length (wa s') = nat (num_features batch)"
proof -
  let ?K = "nat (num_features batch)"
  have c: "veccopy (wa s) (ud_w (ud s)) (num_features batch) = Some (ud_w (ud s))"
    using assms(2,4) by (simp add: veccopy_def)
  obtain a where a: "fdiv rnd 1 (of_int (c s)) = Some a"
    using assms(1,5) unfolding fdiv_def by (metis of_int_eq_0_iff not_one_le_zero)
  from asub_total[OF assms(1), of a "ud_w (ud s)" "ud_ws (ud s)"] obtain zs where
    zs: "asub rnd a (ud_w (ud s)) (ud_ws (ud s)) = Some zs" and lz: "length zs = ?K"
    using assms(2,3) by auto
  have v: "vecasub rnd (ud_w (ud s)) a (ud_ws (ud s)) (num_features batch) = Some zs"
    using assms(2,3) zs by (simp add: vecasub_def)
  obtain r where r: "vecdot rnd zs zs (num_features batch) = Some r"
    using dot_total[OF assms(1), of 0 zs zs] lz by (auto simp: vecdot_def)
  show ?thesis
    using c a v r lz by (simp add: epoch_end_def)
qed

lemma epoch_total:
  assumes tot: "\<forall>x. \<exists>y. rnd x = Some y"
    and wb: "well_behaved pf batch"
    and len: "length (ud_w (ud s)) = nat (num_features batch)"
      "length (ud_ws (ud s)) = nat (num_features batch)"
      "length (wa s) = nat (num_features batch)"
    and c: "c s + max 0 (num_instances batch) \<le> INT_MAX" "1 \<le> c s"
  shows "\<exists>s'. epoch rnd pf batch i s = Some s' \<and> length (wa s') = nat (num_features batch)"
proof -
  let ?s1 = "epoch_begin pf batch s"
  have pm: "\<forall>k. 0 \<le> k \<and> k < num_instances batch \<longrightarrow>
      (\<exists>q. array_read (perm ?s1) k = Some q \<and> 0 \<le> q \<and> nat q < length (seqs batch))"
    using wb unfolding well_behaved_def epoch_begin_def
    by (simp add: split_beta)
  have "\<exists>s2. instance_loop rnd batch 0 ?s1 = Some s2"
    using wb pm len c(1)
    by (intro instance_loop_total[OF tot, of pf]) (simp_all add: epoch_begin_fields)
  then obtain s2 where l: "instance_loop rnd batch 0 ?s1 = Some s2"
    by blast
  note fr = instance_loop_frame[OF l, simplified epoch_begin_fields]
  have "\<exists>s'. epoch_end rnd batch i s2 = Some s' \<and> length (wa s') = nat (num_features batch)"
    using fr len c(2) by (intro epoch_end_total[OF tot]) simp_all
  then show ?thesis
    using l by (simp add: epoch_def)
qed

lemma train_loop_total:
  "\<forall>x. \<exists>y. rnd x = Some y \<Longrightarrow> well_behaved pf batch \<Longrightarrow>
   length (ud_w (ud s)) = nat (num_features batch) \<Longrightarrow>
   length (ud_ws (ud s)) = nat (num_features batch) \<Longrightarrow>
   length (wa s) = nat (num_features batch) \<Longrightarrow>
   c s + max 0 (max_iterations opt - i) * max 0 (num_instances batch) \<le> INT_MAX \<Longrightarrow>
   1 \<le> c s \<Longrightarrow>
   \<exists>s'. train_loop rnd pf batch opt i s = Some s'"
proof (induction rnd pf batch opt i s rule: train_loop.induct)
  case (1 rnd pf batch opt i s)
  show ?case
  proof (cases "i < max_iterations opt")
    case False
    then show ?thesis by (simp add: train_loop_done)
  next
    case True
    have m: "max 0 (max_iterations opt - i) = 1 + max 0 (max_iterations opt - (i + 1))"
      using True by simp
    have b: "c s + max 0 (num_instances batch) +
        max 0 (max_iterations opt - (i + 1)) * max 0 (num_instances batch) \<le> INT_MAX"
      using "1.prems"(6) unfolding m by (simp add: algebra_simps)
    have "0 \<le> max 0 (max_iterations opt - (i + 1)) * max 0 (num_instances batch)"
      by simp
    with b have c1: "c s + max 0 (num_instances batch) \<le> INT_MAX"
      by linarith
    from epoch_total[OF "1.prems"(1,2,3,4,5) c1 "1.prems"(7)] obtain s1 where
      e: "epoch rnd pf batch i s = Some s1" and w1: "length (wa s1) = nat (num_features batch)"
      by blast
    note fr = epoch_frame[OF e]
    show ?thesis
    proof (cases "convergence_test rnd (loss s1) (num_instances batch) (epsilon opt)")
      case yes: True
      with True e show ?thesis by (subst train_loop.simps) simp
    next
      case no: False
      have c2: "1 \<le> c s1"
        using fr(1) "1.prems"(7) by (simp add: max_def)
      have "\<exists>s'. train_loop rnd pf batch opt (i + 1) s1 = Some s'"
        using "1.prems"(1,2,3,4) fr(1,4,5) w1 b c2 by (intro "1.IH"[OF True e no]) simp_all
      with True e no show ?thesis by (subst train_loop.simps) simp
    qed
  qed
qed

lemma crf_train_averaged_perceptron_returns:
  assumes "\<forall>x. \<exists>y. rnd x = Some y"
    and "well_behaved pf batch"
    and "max 0 (max_iterations opt) * max 0 (num_instances batch) < INT_MAX"
  shows "\<exists>r. crf_train_averaged_perceptron rnd pf batch opt g = Some r"
proof (cases "perm_null pf \<or> w_null pf \<or> ws_null pf \<or> wa_null pf \<or> viterbi_null pf")
  case True
  then show ?thesis by (simp add: crf_train_averaged_perceptron_def)
next
  case False
  have "\<exists>s. train_loop rnd pf batch opt 0 (init_locals batch opt g) = Some s"
    using assms by (intro train_loop_total) (simp_all add: init_locals_def)
  with False show ?thesis
    by (auto simp: crf_train_averaged_perceptron_def)
qed

lemma crf_train_averaged_perceptron_exact_returns:
  assumes "well_behaved pf batch"
    and "max 0 (max_iterations opt) * max 0 (num_instances batch) < INT_MAX"
  shows "\<exists>r. crf_train_averaged_perceptron exact pf batch opt g = Some r"
  using assms by (intro crf_train_averaged_perceptron_returns) (simp_all add: exact_def)

subsection \<open>The loss is never negative\<close>

lemma process_instance_loss_nonneg:
  assumes "process_instance binary64 batch n s = Some s'" and "0 \<le> loss s"
  shows "0 \<le> loss s'"
proof -
  from process_instance_Some[OF assms(1)] obtain p seq d v where
    d: "diff (labels seq) v (num_items seq) = Some d"
    and r: "if 0 < d then
       (\<exists>u1 u2 q l.
          run_callback binary64 ((ud s)\<lparr>ud_c := 1, ud_cs := of_int (c s)\<rparr>)
            (enum_features batch seq (labels seq)) = Some u1 \<and>
          run_callback binary64 (u1\<lparr>ud_c := - 1, ud_cs := - of_int (c s)\<rparr>)
            (enum_features batch seq v) = Some u2 \<and>
          fdiv binary64 (of_int d) (of_int (num_items seq)) = Some q \<and>
          fadd binary64 (loss s) q = Some l \<and>
          s' = s\<lparr>viterbi := v,
                 calls := calls s @ [Call_tag, Call_enum_features, Call_enum_features],
                 ud := u2, loss := l, c := c s + 1\<rparr>)
     else s' = s\<lparr>viterbi := v, calls := calls s @ [Call_tag], c := c s + 1\<rparr>"
    by blast
  show ?thesis
  proof (cases "0 < d")
    case False
    with r assms(2) show ?thesis by simp
  next
    case True
    with r obtain q l where q: "fdiv binary64 (of_int d) (of_int (num_items seq)) = Some q"
      and l: "fadd binary64 (loss s) q = Some l" and s': "loss s' = l"
      by auto
    from diff_bounds[OF d] True have "0 < num_items seq" by simp
    with True have "0 \<le> (of_int d :: real) / of_int (num_items seq)" by simp
    with q have "0 \<le> q"
      by (auto simp: fdiv_def split: if_splits dest: binary64_nonneg)
    with l assms(2) have "0 \<le> l"
      by (auto simp: fadd_def dest: binary64_nonneg)
    with s' show ?thesis by simp
  qed
qed

lemma instance_loop_loss_nonneg:
  "instance_loop rnd batch n s = Some s' \<Longrightarrow> rnd = binary64 \<Longrightarrow> 0 \<le> loss s \<Longrightarrow> 0 \<le> loss s'"
proof (induction rnd batch n s rule: instance_loop.induct)
  case (1 rnd batch n s)
  show ?case
  proof (cases "n < num_instances batch")
    case False
    with "1.prems" show ?thesis by (simp add: instance_loop_done)
  next
    case True
    from "1.prems"(1) True obtain s1 where p: "process_instance rnd batch n s = Some s1"
      and l: "instance_loop rnd batch (n + 1) s1 = Some s'"
      by (subst (asm) instance_loop.simps) (auto split: option.splits)
    have "0 \<le> loss s1"
      using process_instance_loss_nonneg[of batch n s s1] p "1.prems"(2,3) by simp
    from "1.IH"[OF True p l "1.prems"(2) this] show ?thesis .
  qed
qed

lemma epoch_loss_nonneg:
  assumes "epoch binary64 pf batch i s = Some s'"
  shows "0 \<le> loss s'"
proof -
  from epoch_Some[OF assms] obtain s2 where
    l: "instance_loop binary64 batch 0 (epoch_begin pf batch s) = Some s2"
    and e: "epoch_end binary64 batch i s2 = Some s'"
    by blast
  from instance_loop_loss_nonneg[OF l] epoch_end_Some(3)[OF e] show ?thesis
    by (simp add: epoch_begin_fields)
qed

lemma convergence_test_zero_epsilon:
  "0 < N \<Longrightarrow> 0 \<le> l \<Longrightarrow> \<not> convergence_test binary64 l N 0"
  by (auto simp: convergence_test_def not_less split: option.splits dest: binary64_nonneg)

lemma train_loop_zero_epsilon:
  "train_loop rnd pf batch opt i s = Some s' \<Longrightarrow> rnd = binary64 \<Longrightarrow>
   0 < num_instances batch \<Longrightarrow> epsilon opt = 0 \<Longrightarrow>
     epochs_run (calls s') = epochs_run (calls s) + nat (max_iterations opt - i)"
proof (induction rnd pf batch opt i s rule: train_loop.induct)
  case (1 rnd pf batch opt i s)
  show ?case
  proof (cases "i < max_iterations opt")
    case False
    with "1.prems" show ?thesis by (simp add: train_loop_done)
  next
    case True
    from train_loop_Some[OF "1.prems"(1) True] obtain s1 where
      e: "epoch rnd pf batch i s = Some s1"
      and r: "if convergence_test rnd (loss s1) (num_instances batch) (epsilon opt)
        then s' = s1\<lparr>calls := calls s1 @ [Call_logging Msg_terminated]\<rparr>
        else train_loop rnd pf batch opt (i + 1) s1 = Some s'"
      by blast
    note a = epoch_frame[OF e]
    have "0 \<le> loss s1"
      using epoch_loss_nonneg[of pf batch i s s1] e "1.prems"(2) by simp
    then have no: "\<not> convergence_test rnd (loss s1) (num_instances batch) (epsilon opt)"
      using "1.prems"(2,3,4) by (simp add: convergence_test_zero_epsilon)
    with r have t: "train_loop rnd pf batch opt (i + 1) s1 = Some s'" by simp
    have n: "nat (max_iterations opt - i) = Suc (nat (max_iterations opt - (i + 1)))"
      using True by simp
    from "1.IH"[OF True e no t "1.prems"(2,3,4)] a(3) n show ?thesis
      by (simp add: epochs_run_def)
  qed
qed

subsection \<open>Averaging zero vectors\<close>

lemma asub_zero: "asub binary64 a (replicate k 0) (replicate k 0) = Some (replicate k 0)"
  by (induction k) (simp_all add: fmul_def fsub_def binary64_zero)

lemma dot_zero: "dot binary64 0 (replicate k 0) (replicate k 0) = Some 0"
  by (induction k) (simp_all add: fmul_def fadd_def binary64_zero)

lemma fdiv_one_counter: "1 \<le> k \<Longrightarrow> \<exists>a. fdiv binary64 1 (of_int k) = Some a"
proof -
  assume "1 \<le> k"
  then have "\<bar>1 / (of_int k :: real)\<bar> \<le> 1"
    by simp
  from binary64_small[OF this] \<open>1 \<le> k\<close> show ?thesis
    by (simp add: fdiv_def)
qed

lemma epoch_end_zero:
  assumes "ud_w (ud s) = replicate (nat (num_features batch)) 0"
    and "ud_ws (ud s) = replicate (nat (num_features batch)) 0"
    and "length (wa s) = nat (num_features batch)"
    and "1 \<le> c s"
  shows "epoch_end binary64 batch i s =
     Some (s\<lparr>wa := replicate (nat (num_features batch)) 0,
             calls := calls s @ [Call_logging (Msg_iteration (i + 1) (loss s) 0)]\<rparr>)"
proof -
  from fdiv_one_counter[OF assms(4)] obtain a where
    a: "fdiv binary64 1 (of_int (c s)) = Some a"
    by blast
  show ?thesis
    using assms(1,2,3) a
    by (simp add: epoch_end_def veccopy_def vecasub_def vecdot_def asub_zero dot_zero)
qed

subsection \<open>Runs on the example inputs\<close>

text \<open>
  The definitions that evaluate a run on concrete inputs. The rounding is unfolded
  at numerals only.
\<close>

lemmas binary64_num =
  binary64_def[of 0] binary64_def[of 1] binary64_def[of "- 1"]
  binary64_def[of "numeral n" for n] binary64_def[of "- numeral n" for n]
  binary64_def[of "numeral a / numeral b" for a b]
  binary64_def[of "- (numeral a / numeral b)" for a b]
  binary64_def[of "1 / numeral b" for b] binary64_def[of "- (1 / numeral b)" for b]

lemmas round_num =
  binary64_num round_binary64_def ilog2_def bit_length.simps pow2_def round_ties_even_def
  DBL_MAX_def Let_def

lemmas eval_defs =
  pf_ok_def batch_wrong_def batch_right_def batch_empty_def batch_two_def batch_four_def
  init_locals_def
  train_loop.simps epoch_def epoch_begin_def epoch_end_def instance_loop.simps
  veccopy_def vecasub_def vecdot_def convergence_test_def
  process_instance_def array_read_def seq_one_def seq_other_def seq_four_def
  feats_one_def feats_four_def diff_def diff_loop.simps
  update_weights_def array_add_def fadd_def fsub_def fmul_def fdiv_def
  INT_MAX_def numeral_2_eq_2 round_num

text \<open>Some roundings: 1/3, 0.1, 0.1 + 0.2, 1e16 + 1 - 1e16, and an overflow.\<close>

lemma binary64_examples:
  "binary64 (1 / 3) = Some (6004799503160661 / 18014398509481984)"
  "binary64 (1 / 10) = Some (3602879701896397 / 36028797018963968)"
  "fadd binary64 (3602879701896397 / 36028797018963968) (3602879701896397 / 18014398509481984) =
     Some (1351079888211149 / 4503599627370496)"
  "fadd binary64 10000000000000000 1 = Some 10000000000000000"
  "fsub binary64 10000000000000000 10000000000000000 = Some 0"
  by (simp_all add: fadd_def fsub_def round_num)

lemma train_loop_batch_wrong_twice:
  "train_loop binary64 pf_ok batch_wrong \<lparr>max_iterations = 2, epsilon = 0\<rparr> 0
     (init_locals batch_wrong \<lparr>max_iterations = 2, epsilon = 0\<rparr> ()) =
   Some \<lparr>perm = [0],
         ud = \<lparr>ud_w = [2, - 2], ud_ws = [3, - 3], ud_c = - 1, ud_cs = - 2\<rparr>,
         wa = [1, - 1], viterbi = [1], c = 3, loss = 1, rng = (),
         calls = [Call_logging (Msg_parameters 2 0),
                  Call_mt_shuffle, Call_tag, Call_enum_features, Call_enum_features,
                  Call_logging (Msg_iteration 1 1 (1 / 2)),
                  Call_mt_shuffle, Call_tag, Call_enum_features, Call_enum_features,
                  Call_logging (Msg_iteration 2 1 2)]\<rparr>"
  by (simp add: eval_defs)

lemma train_batch_right_twice:
  "crf_train_averaged_perceptron binary64 pf_ok batch_right \<lparr>max_iterations = 2, epsilon = 0\<rparr> () =
     Some \<lparr>ret = 0, ptr_w = Some [0, 0], res_rng = (),
           res_calls =
             [Call_logging (Msg_parameters 2 0),
              Call_mt_shuffle, Call_tag, Call_logging (Msg_iteration 1 0 0),
              Call_mt_shuffle, Call_tag, Call_logging (Msg_iteration 2 0 0),
              Call_logging Msg_total]\<rparr>"
  by (simp add: crf_train_averaged_perceptron_def eval_defs)

lemma train_loop_batch_right_twice:
  "train_loop binary64 pf_ok batch_right \<lparr>max_iterations = 2, epsilon = 0\<rparr> 0
     (init_locals batch_right \<lparr>max_iterations = 2, epsilon = 0\<rparr> ()) =
   Some \<lparr>perm = [0],
         ud = \<lparr>ud_w = [0, 0], ud_ws = [0, 0], ud_c = 0, ud_cs = 0\<rparr>,
         wa = [0, 0], viterbi = [0], c = 3, loss = 0, rng = (),
         calls = [Call_logging (Msg_parameters 2 0),
                  Call_mt_shuffle, Call_tag, Call_logging (Msg_iteration 1 0 0),
                  Call_mt_shuffle, Call_tag, Call_logging (Msg_iteration 2 0 0)]\<rparr>"
  by (simp add: eval_defs)

subsection \<open>The empty batch\<close>

lemma epoch_empty:
  assumes "num_instances batch = 0"
    and "ud_w (ud s) = replicate (nat (num_features batch)) 0"
    and "ud_ws (ud s) = replicate (nat (num_features batch)) 0"
    and "length (wa s) = nat (num_features batch)"
    and "1 \<le> c s"
  shows "epoch binary64 pf batch i s =
     Some ((epoch_begin pf batch s)\<lparr>wa := replicate (nat (num_features batch)) 0,
             calls := calls s @ [Call_mt_shuffle, Call_logging (Msg_iteration (i + 1) 0 0)]\<rparr>)"
  using assms
  by (simp add: epoch_def instance_loop_done epoch_end_zero epoch_begin_fields)

text \<open>
  With no instances every epoch leaves the weights alone, logs loss 0, and the
  convergence test (a comparison with a NaN) fails: the loop runs to the cap.
\<close>

lemma train_loop_empty:
  "rnd = binary64 \<Longrightarrow> num_instances batch = 0 \<Longrightarrow>
   ud_w (ud s) = replicate (nat (num_features batch)) 0 \<Longrightarrow>
   ud_ws (ud s) = replicate (nat (num_features batch)) 0 \<Longrightarrow>
   wa s = replicate (nat (num_features batch)) 0 \<Longrightarrow> 1 \<le> c s \<Longrightarrow>
   \<exists>s'. train_loop rnd pf batch opt i s = Some s' \<and> ud s' = ud s \<and> c s' = c s \<and>
     wa s' = replicate (nat (num_features batch)) 0 \<and>
     instances_processed (calls s') = instances_processed (calls s) \<and>
     iteration_losses (calls s') =
       iteration_losses (calls s) @ replicate (nat (max_iterations opt - i)) 0"
proof (induction rnd pf batch opt i s rule: train_loop.induct)
  case (1 rnd pf batch opt i s)
  note rnd = "1.prems"(1)
  show ?case
  proof (cases "i < max_iterations opt")
    case False
    then show ?thesis using "1.prems" by (simp add: train_loop_done)
  next
    case True
    let ?Z = "replicate (nat (num_features batch)) (0::floatval_t)"
    let ?s1 = "(epoch_begin pf batch s)\<lparr>wa := ?Z,
             calls := calls s @ [Call_mt_shuffle, Call_logging (Msg_iteration (i + 1) 0 0)]\<rparr>"
    have e: "epoch rnd pf batch i s = Some ?s1"
      using "1.prems" by (simp add: epoch_empty)
    have nc: "\<not> convergence_test rnd (loss ?s1) (num_instances batch) (epsilon opt)"
      using "1.prems" by (simp add: convergence_test_def epoch_begin_fields)
    have "\<exists>s'. train_loop rnd pf batch opt (i + 1) ?s1 = Some s' \<and> ud s' = ud ?s1 \<and>
       c s' = c ?s1 \<and> wa s' = ?Z \<and>
       instances_processed (calls s') = instances_processed (calls ?s1) \<and>
       iteration_losses (calls s') =
         iteration_losses (calls ?s1) @ replicate (nat (max_iterations opt - (i + 1))) 0"
      using "1.prems" by (intro "1.IH"[OF True e nc]) (simp_all add: epoch_begin_fields)
    then obtain s' where s': "train_loop rnd pf batch opt (i + 1) ?s1 = Some s'"
      "ud s' = ud ?s1" "c s' = c ?s1" "wa s' = ?Z"
      "instances_processed (calls s') = instances_processed (calls ?s1)"
      "iteration_losses (calls s') =
         iteration_losses (calls ?s1) @ replicate (nat (max_iterations opt - (i + 1))) 0"
      by blast
    have t: "train_loop rnd pf batch opt i s = Some s'"
      using True e nc s'(1) by (subst train_loop.simps) simp
    have n: "nat (max_iterations opt - i) = Suc (nat (max_iterations opt - (i + 1)))"
      using True by simp
    show ?thesis
      using t s'(2-) n
      by (simp add: epoch_begin_fields instances_processed_def iteration_losses_append
          replicate_append_same)
  qed
qed

text \<open>
  C1. The claim: for an empty batch the trainer stops after one degenerate epoch,
  even when \<open>max_iterations > 1\<close>, because 0/0 in the convergence test counts as
  converged. The code has no such case: on the empty batch with
  \<open>max_iterations = 2\<close> it runs two epochs (two shuffles, two iteration messages)
  and never logs the stopping criterion, whatever \<open>epsilon\<close> is.
\<close>

theorem C1_empty_batch_runs_to_cap:
  "crf_train_averaged_perceptron binary64 pf_ok batch_empty \<lparr>max_iterations = 2, epsilon = eps\<rparr> () =
     Some \<lparr>ret = 0, ptr_w = Some [0, 0], res_rng = (),
           res_calls =
             [Call_logging (Msg_parameters 2 eps),
              Call_mt_shuffle, Call_logging (Msg_iteration 1 0 0),
              Call_mt_shuffle, Call_logging (Msg_iteration 2 0 0),
              Call_logging Msg_total]\<rparr>"
  by (simp add: crf_train_averaged_perceptron_def eval_defs)

text \<open>
  C6. For a batch with zero training instances (and successful allocations) the
  trainer returns: no instance is ever processed, \<^verbatim>\<open>w\<close> and \<^verbatim>\<open>ws\<close> are all-zero
  at the end, the status is 0 and \<^verbatim>\<open>*ptr_w\<close> is the all-zero vector whose length is
  the feature-space size.
\<close>

theorem C6_empty_batch_zero_vector:
  assumes "num_instances batch = 0"
    and "\<not> (perm_null pf \<or> w_null pf \<or> ws_null pf \<or> wa_null pf \<or> viterbi_null pf)"
  shows "\<exists>s. train_loop binary64 pf batch opt 0 (init_locals batch opt g) = Some s \<and>
     ud_w (ud s) = replicate (nat (num_features batch)) 0 \<and>
     ud_ws (ud s) = replicate (nat (num_features batch)) 0 \<and>
     instances_processed (calls s) = 0 \<and>
     crf_train_averaged_perceptron binary64 pf batch opt g =
       Some \<lparr>ret = 0, ptr_w = Some (replicate (nat (num_features batch)) 0),
             res_rng = rng s, res_calls = calls s @ [Call_logging Msg_total]\<rparr>"
proof -
  let ?s0 = "init_locals batch opt g"
  have "\<exists>s'. train_loop binary64 pf batch opt 0 ?s0 = Some s' \<and> ud s' = ud ?s0 \<and> c s' = c ?s0 \<and>
     wa s' = replicate (nat (num_features batch)) 0 \<and>
     instances_processed (calls s') = instances_processed (calls ?s0) \<and>
     iteration_losses (calls s') =
       iteration_losses (calls ?s0) @ replicate (nat (max_iterations opt - 0)) 0"
    by (rule train_loop_empty) (simp_all add: assms(1) init_locals_def)
  then obtain s where s: "train_loop binary64 pf batch opt 0 ?s0 = Some s" "ud s = ud ?s0"
    "wa s = replicate (nat (num_features batch)) 0"
    "instances_processed (calls s) = instances_processed (calls ?s0)"
    by blast
  have "crf_train_averaged_perceptron binary64 pf batch opt g =
       Some \<lparr>ret = 0, ptr_w = Some (replicate (nat (num_features batch)) 0),
             res_rng = rng s, res_calls = calls s @ [Call_logging Msg_total]\<rparr>"
    using assms(2) s(1,3) by (simp add: crf_train_averaged_perceptron_def)
  then show ?thesis
    using s by (simp add: init_locals_def instances_processed_def)
qed

theorem C6_empty_batch_zero_vector_witness:
  "num_instances batch_empty = 0 \<and>
   \<not> (perm_null pf_ok \<or> w_null pf_ok \<or> ws_null pf_ok \<or> wa_null pf_ok \<or> viterbi_null pf_ok) \<and>
   (\<exists>s. train_loop binary64 pf_ok batch_empty \<lparr>max_iterations = 3, epsilon = 0\<rparr> 0
          (init_locals batch_empty \<lparr>max_iterations = 3, epsilon = 0\<rparr> ()) = Some s \<and>
     ud_w (ud s) = [0, 0] \<and> ud_ws (ud s) = [0, 0] \<and>
     instances_processed (calls s) = 0 \<and>
     crf_train_averaged_perceptron binary64 pf_ok batch_empty \<lparr>max_iterations = 3, epsilon = 0\<rparr> () =
       Some \<lparr>ret = 0, ptr_w = Some [0, 0],
             res_rng = rng s, res_calls = calls s @ [Call_logging Msg_total]\<rparr>)"
proof -
  have h1: "num_instances batch_empty = 0"
    by (simp add: batch_empty_def)
  have h2: "\<not> (perm_null pf_ok \<or> w_null pf_ok \<or> ws_null pf_ok \<or> wa_null pf_ok \<or>
    viterbi_null pf_ok)"
    by (simp add: pf_ok_def)
  have k: "replicate (nat (num_features batch_empty)) (0::floatval_t) = [0, 0]"
    by (simp add: batch_empty_def numeral_2_eq_2)
  show ?thesis
    using h1 h2
      C6_empty_batch_zero_vector [OF h1 h2, of "\<lparr>max_iterations = 3, epsilon = 0\<rparr>" "()"]
    unfolding k by simp
qed

subsection \<open>Allocation failure and the result\<close>

text \<open>
  C8. If any of the five allocations fails, the trainer returns
  \<^verbatim>\<open>CRFERR_OUTOFMEMORY\<close> and does not write \<^verbatim>\<open>*ptr_w\<close> (and has called no
  collaborator); if none fails, every run that returns gives status 0 and writes
  \<^verbatim>\<open>wa\<close>, as left by the loop, to \<^verbatim>\<open>*ptr_w\<close>.
\<close>

theorem C8_out_of_memory_or_wa:
  "(perm_null pf \<or> w_null pf \<or> ws_null pf \<or> wa_null pf \<or> viterbi_null pf \<longrightarrow>
      crf_train_averaged_perceptron binary64 pf batch opt g =
        Some \<lparr>ret = CRFERR_OUTOFMEMORY pf, ptr_w = None, res_rng = g, res_calls = []\<rparr>) \<and>
   (\<not> (perm_null pf \<or> w_null pf \<or> ws_null pf \<or> wa_null pf \<or> viterbi_null pf) \<longrightarrow>
      (\<forall>r. crf_train_averaged_perceptron binary64 pf batch opt g = Some r \<longrightarrow>
         ret r = 0 \<and>
         (\<exists>s. train_loop binary64 pf batch opt 0 (init_locals batch opt g) = Some s \<and>
              ptr_w r = Some (wa s))))"
  by (auto simp: crf_train_averaged_perceptron_def split: option.splits)

lemma train_batch_wrong_once:
  "crf_train_averaged_perceptron binary64 pf_ok batch_wrong \<lparr>max_iterations = 1, epsilon = 0\<rparr> () =
     Some \<lparr>ret = 0, ptr_w = Some [1 / 2, - (1 / 2)], res_rng = (),
           res_calls =
             [Call_logging (Msg_parameters 1 0), Call_mt_shuffle, Call_tag,
              Call_enum_features, Call_enum_features,
              Call_logging (Msg_iteration 1 1 (1 / 2)), Call_logging Msg_total]\<rparr>"
  by (simp add: crf_train_averaged_perceptron_def eval_defs)

theorem C8_out_of_memory_or_wa_witness:
  "ws_null pf_oom \<and>
   crf_train_averaged_perceptron binary64 pf_oom batch_wrong \<lparr>max_iterations = 1, epsilon = 0\<rparr> () =
     Some \<lparr>ret = - 2147483647, ptr_w = None, res_rng = (), res_calls = []\<rparr> \<and>
   \<not> (perm_null pf_ok \<or> w_null pf_ok \<or> ws_null pf_ok \<or> wa_null pf_ok \<or> viterbi_null pf_ok) \<and>
   (\<exists>r s. crf_train_averaged_perceptron binary64 pf_ok batch_wrong
             \<lparr>max_iterations = 1, epsilon = 0\<rparr> () = Some r \<and>
      ret r = 0 \<and>
      train_loop binary64 pf_ok batch_wrong \<lparr>max_iterations = 1, epsilon = 0\<rparr> 0
        (init_locals batch_wrong \<lparr>max_iterations = 1, epsilon = 0\<rparr> ()) = Some s \<and>
      ptr_w r = Some (wa s) \<and> wa s = [1 / 2, - (1 / 2)])"
proof -
  have h1: "ws_null pf_oom"
    by (simp add: pf_oom_def)
  have h2: "\<not> (perm_null pf_ok \<or> w_null pf_ok \<or> ws_null pf_ok \<or> wa_null pf_ok \<or>
    viterbi_null pf_ok)"
    by (simp add: pf_ok_def)
  have oom: "crf_train_averaged_perceptron binary64 pf_oom batch_wrong
      \<lparr>max_iterations = 1, epsilon = 0\<rparr> () =
     Some \<lparr>ret = - 2147483647, ptr_w = None, res_rng = (), res_calls = []\<rparr>"
    using h1 C8_out_of_memory_or_wa [of pf_oom batch_wrong
        "\<lparr>max_iterations = 1, epsilon = 0\<rparr>" "()"]
    by (simp add: pf_oom_def pf_ok_def)
  have ok: "\<exists>r s. crf_train_averaged_perceptron binary64 pf_ok batch_wrong
             \<lparr>max_iterations = 1, epsilon = 0\<rparr> () = Some r \<and>
      ret r = 0 \<and>
      train_loop binary64 pf_ok batch_wrong \<lparr>max_iterations = 1, epsilon = 0\<rparr> 0
        (init_locals batch_wrong \<lparr>max_iterations = 1, epsilon = 0\<rparr> ()) = Some s \<and>
      ptr_w r = Some (wa s) \<and> wa s = [1 / 2, - (1 / 2)]"
    using h2 train_batch_wrong_once
      C8_out_of_memory_or_wa [of pf_ok batch_wrong "\<lparr>max_iterations = 1, epsilon = 0\<rparr>" "()"]
    by auto
  show ?thesis
    using h1 h2 oom ok by blast
qed

subsection \<open>No iterations\<close>

text \<open>
  C10. If \<open>max_iterations\<close> is zero or negative (and the allocations succeed), the
  trainer returns status 0 and the all-zero vector of the feature-space size, and
  the only calls it has made are the two to \<^verbatim>\<open>logging\<close> outside the loop: the
  shuffler, the decoder and the feature oracle are never invoked.
\<close>

theorem C10_no_iterations:
  assumes "max_iterations opt \<le> 0"
    and "\<not> (perm_null pf \<or> w_null pf \<or> ws_null pf \<or> wa_null pf \<or> viterbi_null pf)"
  shows "crf_train_averaged_perceptron binary64 pf batch opt g =
     Some \<lparr>ret = 0, ptr_w = Some (replicate (nat (num_features batch)) 0), res_rng = g,
           res_calls = [Call_logging (Msg_parameters (max_iterations opt) (epsilon opt)),
                        Call_logging Msg_total]\<rparr>"
  using assms
  by (simp add: crf_train_averaged_perceptron_def train_loop_done init_locals_def)

theorem C10_no_iterations_witness:
  "max_iterations \<lparr>max_iterations = - 3, epsilon = 0\<rparr> \<le> 0 \<and>
   \<not> (perm_null pf_ok \<or> w_null pf_ok \<or> ws_null pf_ok \<or> wa_null pf_ok \<or> viterbi_null pf_ok) \<and>
   crf_train_averaged_perceptron binary64 pf_ok batch_wrong \<lparr>max_iterations = - 3, epsilon = 0\<rparr> () =
     Some \<lparr>ret = 0, ptr_w = Some [0, 0], res_rng = (),
           res_calls = [Call_logging (Msg_parameters (- 3) 0), Call_logging Msg_total]\<rparr>"
proof -
  have h1: "max_iterations \<lparr>max_iterations = - 3, epsilon = 0\<rparr> \<le> 0"
    by simp
  have h2: "\<not> (perm_null pf_ok \<or> w_null pf_ok \<or> ws_null pf_ok \<or> wa_null pf_ok \<or>
    viterbi_null pf_ok)"
    by (simp add: pf_ok_def)
  have k: "replicate (nat (num_features batch_wrong)) (0::floatval_t) = [0, 0]"
    by (simp add: batch_wrong_def numeral_2_eq_2)
  show ?thesis
    using h1 h2 C10_no_iterations [OF h1 h2, of batch_wrong "()"]
    unfolding k by simp
qed

subsection \<open>The update counter\<close>

text \<open>
  C5. The counter \<^verbatim>\<open>c\<close> starts at 1; processing an instance, mistaken or not,
  adds exactly 1 to it; an epoch adds the number of instances and the outer loop
  never decreases it (it is not reset between epochs); at the end of the loop
  \<open>c = k + 1\<close>, where \<open>k\<close> is the number of instances processed in all epochs
  together (the number of decoder calls).
\<close>

theorem C5_counter:
  "c (init_locals batch opt g) = 1 \<and>
   (\<forall>n s s'. process_instance binary64 batch n s = Some s' \<longrightarrow>
      c s' = c s + 1 \<and>
      instances_processed (calls s') = instances_processed (calls s) + 1) \<and>
   (\<forall>i s s'. epoch binary64 pf batch i s = Some s' \<longrightarrow> c s' = c s + max 0 (num_instances batch)) \<and>
   (\<forall>i s s'. train_loop binary64 pf batch opt i s = Some s' \<longrightarrow> c s \<le> c s') \<and>
   (\<forall>s. train_loop binary64 pf batch opt 0 (init_locals batch opt g) = Some s \<longrightarrow>
      c s = int (instances_processed (calls s)) + 1)"
proof -
  have "c s = int (instances_processed (calls s)) + 1"
    if "train_loop binary64 pf batch opt 0 (init_locals batch opt g) = Some s" for s
    using train_loop_counter[OF that]
    by (simp add: init_locals_def instances_processed_def)
  then show ?thesis
    using process_instance_frame(1,6)[where rnd = binary64 and batch = batch]
      epoch_frame(1)[where rnd = binary64 and pf = pf and batch = batch]
      train_loop_counter[where rnd = binary64 and pf = pf and batch = batch and opt = opt]
    by (simp add: init_locals_def) blast
qed

theorem C5_counter_witness:
  "\<exists>s. train_loop binary64 pf_ok batch_wrong \<lparr>max_iterations = 2, epsilon = 0\<rparr> 0
          (init_locals batch_wrong \<lparr>max_iterations = 2, epsilon = 0\<rparr> ()) = Some s \<and>
       instances_processed (calls s) = 2 \<and> c s = 3"
proof -
  let ?opt = "\<lparr>max_iterations = 2, epsilon = 0\<rparr>"
  obtain s where s: "train_loop binary64 pf_ok batch_wrong ?opt 0 (init_locals batch_wrong ?opt ()) = Some s"
    and k: "instances_processed (calls s) = 2"
    using train_loop_batch_wrong_twice by (simp add: instances_processed_def)
  from C5_counter [of batch_wrong ?opt "()" pf_ok] s
  have "c s = int (instances_processed (calls s)) + 1"
    by blast
  with s k show ?thesis by simp
qed

subsection \<open>The convergence test with epsilon 0\<close>

text \<open>
  The claim C2 as stated (training with \<open>epsilon = 0\<close> stops early when an epoch has
  loss 0) fails: on \<open>batch_right\<close> the decoder is always right, the first epoch logs
  loss 0, and a second epoch runs all the same; the stopping criterion is never logged.
\<close>

theorem C2_zero_loss_epoch_does_not_stop:
  "crf_train_averaged_perceptron binary64 pf_ok batch_right \<lparr>max_iterations = 2, epsilon = 0\<rparr> () =
     Some \<lparr>ret = 0, ptr_w = Some [0, 0], res_rng = (),
           res_calls =
             [Call_logging (Msg_parameters 2 0),
              Call_mt_shuffle, Call_tag, Call_logging (Msg_iteration 1 0 0),
              Call_mt_shuffle, Call_tag, Call_logging (Msg_iteration 2 0 0),
              Call_logging Msg_total]\<rparr>"
  by (simp add: crf_train_averaged_perceptron_def eval_defs)

text \<open>
  C2, amended. With \<open>epsilon = 0\<close> and a non-empty batch the convergence test
  \<^verbatim>\<open>loss / N < 0\<close> never fires, because the loss of an epoch is never negative:
  every run that returns has performed exactly \<open>max_iterations\<close> epochs (none if
  \<open>max_iterations\<close> is negative), whatever the losses were, also after an epoch
  with loss 0.
\<close>

theorem C2_zero_epsilon_runs_to_cap:
  assumes "epsilon opt = 0" and "0 < num_instances batch"
    and "\<not> (perm_null pf \<or> w_null pf \<or> ws_null pf \<or> wa_null pf \<or> viterbi_null pf)"
    and "crf_train_averaged_perceptron binary64 pf batch opt g = Some r"
  shows "epochs_run (res_calls r) = nat (max_iterations opt)"
proof -
  from assms(3,4) obtain s where
    s: "train_loop binary64 pf batch opt 0 (init_locals batch opt g) = Some s"
    and r: "res_calls r = calls s @ [Call_logging Msg_total]"
    by (auto simp: crf_train_averaged_perceptron_def split: option.splits)
  from train_loop_zero_epsilon[OF s refl assms(2,1)] r show ?thesis
    by (simp add: epochs_run_def iteration_losses_append init_locals_def)
qed

theorem C2_zero_epsilon_runs_to_cap_witness:
  "epsilon \<lparr>max_iterations = 2, epsilon = 0\<rparr> = 0 \<and> 0 < num_instances batch_right \<and>
   \<not> (perm_null pf_ok \<or> w_null pf_ok \<or> ws_null pf_ok \<or> wa_null pf_ok \<or> viterbi_null pf_ok) \<and>
   (\<exists>r. crf_train_averaged_perceptron binary64 pf_ok batch_right
          \<lparr>max_iterations = 2, epsilon = 0\<rparr> () = Some r \<and>
        iteration_losses (res_calls r) = [0, 0] \<and> epochs_run (res_calls r) = 2)"
proof -
  let ?opt = "\<lparr>max_iterations = 2, epsilon = 0\<rparr>"
  have h1: "epsilon ?opt = 0" by simp
  have h2: "0 < num_instances batch_right" by (simp add: batch_right_def)
  have h3: "\<not> (perm_null pf_ok \<or> w_null pf_ok \<or> ws_null pf_ok \<or> wa_null pf_ok \<or>
    viterbi_null pf_ok)"
    by (simp add: pf_ok_def)
  obtain r where r: "crf_train_averaged_perceptron binary64 pf_ok batch_right ?opt () = Some r"
    and l: "iteration_losses (res_calls r) = [0, 0]"
    using train_batch_right_twice by simp
  from C2_zero_epsilon_runs_to_cap [OF h1 h2 h3 r]
  have "epochs_run (res_calls r) = 2" by simp
  with h1 h2 h3 r l show ?thesis by blast
qed

subsection \<open>A decoder that is always right\<close>

lemma array_read_mem: "array_read xs i = Some x \<Longrightarrow> x \<in> set xs"
  by (auto simp: array_read_def split: if_splits)

lemma process_instance_right:
  assumes H: "\<And>w seq v. seq \<in> set (seqs batch) \<Longrightarrow>
      take (nat (num_items seq)) (fst (tag batch w seq v)) = take (nat (num_items seq)) (labels seq)"
    and p: "process_instance rnd batch n s = Some s'"
  shows "ud s' = ud s" "loss s' = loss s" "wa s' = wa s" "calls s' = calls s @ [Call_tag]"
proof -
  from process_instance_Some[OF p] obtain p seq d v where
    q: "array_read (seqs batch) p = Some seq"
    and v: "v = fst (tag batch (ud_w (ud s)) seq (viterbi s))"
    and d: "diff (labels seq) v (num_items seq) = Some d"
    and r: "if 0 < d then
       (\<exists>u1 u2 q l.
          run_callback rnd ((ud s)\<lparr>ud_c := 1, ud_cs := of_int (c s)\<rparr>)
            (enum_features batch seq (labels seq)) = Some u1 \<and>
          run_callback rnd (u1\<lparr>ud_c := - 1, ud_cs := - of_int (c s)\<rparr>)
            (enum_features batch seq v) = Some u2 \<and>
          fdiv rnd (of_int d) (of_int (num_items seq)) = Some q \<and>
          fadd rnd (loss s) q = Some l \<and>
          s' = s\<lparr>viterbi := v,
                 calls := calls s @ [Call_tag, Call_enum_features, Call_enum_features],
                 ud := u2, loss := l, c := c s + 1\<rparr>)
     else s' = s\<lparr>viterbi := v, calls := calls s @ [Call_tag], c := c s + 1\<rparr>"
    by blast
  have "take (nat (num_items seq)) (labels seq) = take (nat (num_items seq)) v"
    unfolding v using H[OF array_read_mem[OF q]] by simp
  from diff_same[OF d this] have "d = 0" .
  with r have s': "s' = s\<lparr>viterbi := v, calls := calls s @ [Call_tag], c := c s + 1\<rparr>"
    by simp
  show "ud s' = ud s" "loss s' = loss s" "wa s' = wa s" "calls s' = calls s @ [Call_tag]"
    by (simp_all add: s')
qed

lemma instance_loop_right:
  "instance_loop rnd batch n s = Some s' \<Longrightarrow>
    (\<forall>w seq v. seq \<in> set (seqs batch) \<longrightarrow>
      take (nat (num_items seq)) (fst (tag batch w seq v)) =
      take (nat (num_items seq)) (labels seq)) \<Longrightarrow>
    ud s' = ud s \<and> loss s' = loss s \<and> wa s' = wa s \<and> set (calls s') \<subseteq> set (calls s) \<union> {Call_tag}"
proof (induction rnd batch n s rule: instance_loop.induct)
  case (1 rnd batch n s)
  show ?case
  proof (cases "n < num_instances batch")
    case False
    with "1.prems" show ?thesis by (auto simp: instance_loop_done)
  next
    case True
    from "1.prems"(1) True obtain s1 where p: "process_instance rnd batch n s = Some s1"
      and l: "instance_loop rnd batch (n + 1) s1 = Some s'"
      by (subst (asm) instance_loop.simps) (auto split: option.splits)
    have H: "\<And>w seq v. seq \<in> set (seqs batch) \<Longrightarrow>
      take (nat (num_items seq)) (fst (tag batch w seq v)) = take (nat (num_items seq)) (labels seq)"
      using "1.prems"(2) by blast
    note a = process_instance_right[OF H p]
    note b = "1.IH"[OF True p l "1.prems"(2)]
    show ?thesis
      using a b by auto
  qed
qed

lemma epoch_right:
  assumes H: "\<And>w seq v. seq \<in> set (seqs batch) \<Longrightarrow>
      take (nat (num_items seq)) (fst (tag batch w seq v)) = take (nat (num_items seq)) (labels seq)"
    and z: "ud_w (ud s) = replicate (nat (num_features batch)) 0"
      "ud_ws (ud s) = replicate (nat (num_features batch)) 0"
      "length (wa s) = nat (num_features batch)"
    and c: "1 \<le> c s"
    and e: "epoch binary64 pf batch i s = Some s'"
  shows "ud s' = ud s" "loss s' = 0" "wa s' = replicate (nat (num_features batch)) 0"
    "set (calls s') \<subseteq> set (calls s) \<union>
       {Call_tag, Call_mt_shuffle, Call_logging (Msg_iteration (i + 1) 0 0)}"
proof -
  from epoch_Some[OF e] obtain s2 where
    l: "instance_loop binary64 batch 0 (epoch_begin pf batch s) = Some s2"
    and e2: "epoch_end binary64 batch i s2 = Some s'"
    by blast
  have H': "\<forall>w seq v. seq \<in> set (seqs batch) \<longrightarrow>
      take (nat (num_items seq)) (fst (tag batch w seq v)) =
      take (nat (num_items seq)) (labels seq)"
    using H by blast
  note a = instance_loop_right[OF l H', simplified epoch_begin_fields]
  have "1 \<le> c s2"
    using instance_loop_frame[OF l] c by (simp add: epoch_begin_fields)
  then have "epoch_end binary64 batch i s2 =
     Some (s2\<lparr>wa := replicate (nat (num_features batch)) 0,
             calls := calls s2 @ [Call_logging (Msg_iteration (i + 1) (loss s2) 0)]\<rparr>)"
    using a z by (intro epoch_end_zero) simp_all
  with e2 have s': "s' = s2\<lparr>wa := replicate (nat (num_features batch)) 0,
             calls := calls s2 @ [Call_logging (Msg_iteration (i + 1) (loss s2) 0)]\<rparr>"
    by simp
  show "ud s' = ud s" "loss s' = 0" "wa s' = replicate (nat (num_features batch)) 0"
    using a by (simp_all add: s')
  show "set (calls s') \<subseteq> set (calls s) \<union>
       {Call_tag, Call_mt_shuffle, Call_logging (Msg_iteration (i + 1) 0 0)}"
    using a by (auto simp: s')
qed

lemma train_loop_right:
  "train_loop rnd pf batch opt i s = Some s' \<Longrightarrow> rnd = binary64 \<Longrightarrow> 1 \<le> c s \<Longrightarrow>
    (\<forall>w seq v. seq \<in> set (seqs batch) \<longrightarrow>
      take (nat (num_items seq)) (fst (tag batch w seq v)) =
      take (nat (num_items seq)) (labels seq)) \<Longrightarrow>
    ud_w (ud s) = replicate (nat (num_features batch)) 0 \<Longrightarrow>
    ud_ws (ud s) = replicate (nat (num_features batch)) 0 \<Longrightarrow>
    wa s = replicate (nat (num_features batch)) 0 \<Longrightarrow>
    ud s' = ud s \<and> wa s' = replicate (nat (num_features batch)) 0 \<and>
    set (calls s') \<subseteq> set (calls s) \<union>
      ({Call_tag, Call_mt_shuffle, Call_logging Msg_terminated} \<union>
       {Call_logging (Msg_iteration j 0 0) |j. True})"
proof (induction rnd pf batch opt i s rule: train_loop.induct)
  case (1 rnd pf batch opt i s)
  note rnd = "1.prems"(2)
  show ?case
  proof (cases "i < max_iterations opt")
    case False
    with "1.prems" show ?thesis by (auto simp: train_loop_done)
  next
    case True
    from train_loop_Some[OF "1.prems"(1) True] obtain s1 where
      e: "epoch rnd pf batch i s = Some s1"
      and r: "if convergence_test rnd (loss s1) (num_instances batch) (epsilon opt)
        then s' = s1\<lparr>calls := calls s1 @ [Call_logging Msg_terminated]\<rparr>
        else train_loop rnd pf batch opt (i + 1) s1 = Some s'"
      by blast
    have len: "length (wa s) = nat (num_features batch)"
      using "1.prems"(7) by simp
    have H: "\<And>w seq v. seq \<in> set (seqs batch) \<Longrightarrow>
      take (nat (num_items seq)) (fst (tag batch w seq v)) = take (nat (num_items seq)) (labels seq)"
      using "1.prems"(4) by blast
    note a = epoch_right[OF H "1.prems"(5,6) len "1.prems"(3) e[unfolded rnd]]
    have c1: "1 \<le> c s1"
      using epoch_frame(1)[OF e] "1.prems"(3) by simp
    show ?thesis
    proof (cases "convergence_test rnd (loss s1) (num_instances batch) (epsilon opt)")
      case yes: True
      with r a show ?thesis by auto
    next
      case no: False
      with r have t: "train_loop rnd pf batch opt (i + 1) s1 = Some s'" by simp
      have "ud s' = ud s1 \<and> wa s' = replicate (nat (num_features batch)) 0 \<and>
        set (calls s') \<subseteq> set (calls s1) \<union>
          ({Call_tag, Call_mt_shuffle, Call_logging Msg_terminated} \<union>
           {Call_logging (Msg_iteration j 0 0) |j. True})"
        using a(1,3) "1.prems"(5,6)
        by (intro "1.IH"[OF True e no t rnd c1 "1.prems"(4)]) simp_all
      with a show ?thesis by auto
    qed
  qed
qed

lemma iteration_losses_mem:
  "l \<in> set (iteration_losses cs) \<Longrightarrow> \<exists>i n2. Call_logging (Msg_iteration i l n2) \<in> set cs"
  by (induction cs rule: iteration_losses.induct) auto

text \<open>
  C7. If, for every instance of the batch, the decoder writes the gold labels into
  the first \<^verbatim>\<open>num_items\<close> entries of the \<^verbatim>\<open>viterbi\<close> buffer (so that \<open>d = 0\<close>
  always), then at the end of the loop \<^verbatim>\<open>w\<close>, \<^verbatim>\<open>ws\<close> and \<^verbatim>\<open>wa\<close> are all-zero,
  the feature oracle has never been called, every iteration message reports loss 0
  and \<^verbatim>\<open>vecdot(wa, wa, K) = 0\<close> (so \<^verbatim>\<open>wa\<close> was the zero vector at every
  recomputation), while the counter has advanced by one per processed instance.
\<close>

theorem C7_no_mistake_stability:
  assumes "\<forall>w seq v. seq \<in> set (seqs batch) \<longrightarrow>
      take (nat (num_items seq)) (fst (tag batch w seq v)) = take (nat (num_items seq)) (labels seq)"
    and "train_loop binary64 pf batch opt 0 (init_locals batch opt g) = Some s"
  shows "ud_w (ud s) = replicate (nat (num_features batch)) 0 \<and>
    ud_ws (ud s) = replicate (nat (num_features batch)) 0 \<and>
    wa s = replicate (nat (num_features batch)) 0 \<and>
    Call_enum_features \<notin> set (calls s) \<and>
    (\<forall>i l n2. Call_logging (Msg_iteration i l n2) \<in> set (calls s) \<longrightarrow> l = 0 \<and> n2 = 0) \<and>
    (\<forall>l \<in> set (iteration_losses (calls s)). l = 0) \<and>
    c s = int (instances_processed (calls s)) + 1"
proof -
  let ?s0 = "init_locals batch opt g"
  have a: "ud s = ud ?s0 \<and> wa s = replicate (nat (num_features batch)) 0 \<and>
    set (calls s) \<subseteq> set (calls ?s0) \<union>
      ({Call_tag, Call_mt_shuffle, Call_logging Msg_terminated} \<union>
       {Call_logging (Msg_iteration j 0 0) |j. True})"
    by (rule train_loop_right[OF assms(2) refl _ assms(1)]) (simp_all add: init_locals_def)
  then have sub: "set (calls s) \<subseteq>
      {Call_logging (Msg_parameters (max_iterations opt) (epsilon opt)),
       Call_tag, Call_mt_shuffle, Call_logging Msg_terminated} \<union>
       {Call_logging (Msg_iteration j 0 0) |j. True}"
    by (auto simp: init_locals_def)
  have it: "l = 0 \<and> n2 = 0" if "Call_logging (Msg_iteration i l n2) \<in> set (calls s)" for i l n2
    using that sub by auto
  have "l = 0" if "l \<in> set (iteration_losses (calls s))" for l
    using iteration_losses_mem[OF that] it by blast
  moreover have "Call_enum_features \<notin> set (calls s)"
    using sub by auto
  moreover have "c s = int (instances_processed (calls s)) + 1"
    using train_loop_counter[OF assms(2)] by (simp add: init_locals_def instances_processed_def)
  ultimately show ?thesis
    using a it by (simp add: init_locals_def)
qed

theorem C7_no_mistake_stability_witness:
  "\<exists>s. train_loop binary64 pf_ok batch_right \<lparr>max_iterations = 2, epsilon = 0\<rparr> 0
          (init_locals batch_right \<lparr>max_iterations = 2, epsilon = 0\<rparr> ()) = Some s \<and>
        ud_w (ud s) = [0, 0] \<and> ud_ws (ud s) = [0, 0] \<and> wa s = [0, 0] \<and>
        Call_enum_features \<notin> set (calls s) \<and>
        iteration_losses (calls s) = [0, 0] \<and> c s = 3"
proof -
  let ?opt = "\<lparr>max_iterations = 2, epsilon = 0\<rparr>"
  have h: "\<forall>w seq v. seq \<in> set (seqs batch_right) \<longrightarrow>
      take (nat (num_items seq)) (fst (tag batch_right w seq v)) =
      take (nat (num_items seq)) (labels seq)"
    by (simp add: batch_right_def seq_one_def)
  obtain s where s: "train_loop binary64 pf_ok batch_right ?opt 0 (init_locals batch_right ?opt ()) = Some s"
    and l: "iteration_losses (calls s) = [0, 0]" and k: "instances_processed (calls s) = 2"
    using train_loop_batch_right_twice by (simp add: instances_processed_def)
  have n: "replicate (nat (num_features batch_right)) (0::floatval_t) = [0, 0]"
    by (simp add: batch_right_def numeral_2_eq_2)
  from C7_no_mistake_stability [OF h s] l k h s show ?thesis
    unfolding n by auto
qed

subsection \<open>The score of the decoder\<close>

lemma process_instance_score:
  "(\<forall>w seq v. fst (t2 w seq v) = fst (tag batch w seq v)) \<Longrightarrow>
   process_instance rnd (batch\<lparr>tag := t2\<rparr>) n s = process_instance rnd batch n s"
  by (simp add: process_instance_def Let_def cong: if_cong)

lemma instance_loop_score:
  "(\<forall>w seq v. fst (t2 w seq v) = fst (tag batch w seq v)) \<Longrightarrow>
   instance_loop rnd (batch\<lparr>tag := t2\<rparr>) n s = instance_loop rnd batch n s"
proof (induction rnd batch n s rule: instance_loop.induct)
  case (1 rnd batch n s)
  show ?case
  proof (cases "n < num_instances batch")
    case False
    then show ?thesis by (simp add: instance_loop_done)
  next
    case True
    show ?thesis
    proof (cases "process_instance rnd batch n s")
      case None
      with True "1.prems" show ?thesis
        by (simp add: instance_loop.simps[of rnd _ n s] process_instance_score)
    next
      case (Some s1)
      with True "1.prems" "1.IH"[OF True Some "1.prems"] show ?thesis
        by (simp add: instance_loop.simps[of rnd _ n s] process_instance_score)
    qed
  qed
qed

lemma epoch_score:
  "(\<forall>w seq v. fst (t2 w seq v) = fst (tag batch w seq v)) \<Longrightarrow>
   epoch rnd pf (batch\<lparr>tag := t2\<rparr>) i s = epoch rnd pf batch i s"
  by (simp add: epoch_def instance_loop_score epoch_begin_def epoch_end_def)

lemma train_loop_score:
  "(\<forall>w seq v. fst (t2 w seq v) = fst (tag batch w seq v)) \<Longrightarrow>
   train_loop rnd pf (batch\<lparr>tag := t2\<rparr>) opt i s = train_loop rnd pf batch opt i s"
proof (induction rnd pf batch opt i s rule: train_loop.induct)
  case (1 rnd pf batch opt i s)
  show ?case
  proof (cases "i < max_iterations opt")
    case False
    then show ?thesis by (simp add: train_loop_done)
  next
    case True
    show ?thesis
    proof (cases "epoch rnd pf batch i s")
      case None
      with True "1.prems" show ?thesis
        by (simp add: train_loop.simps[of rnd pf _ opt i s] epoch_score)
    next
      case (Some s1)
      show ?thesis
      proof (cases "convergence_test rnd (loss s1) (num_instances batch) (epsilon opt)")
        case yes: True
        with True Some "1.prems" show ?thesis
          by (simp add: train_loop.simps[of rnd pf _ opt i s] epoch_score)
      next
        case no: False
        with True Some "1.prems" "1.IH"[OF True Some no "1.prems"] show ?thesis
          by (simp add: train_loop.simps[of rnd pf _ opt i s] epoch_score)
      qed
    qed
  qed
qed

text \<open>
  C9. Two batches that differ only in the score their decoder reports (the labels
  it writes are the same for all weights, instances and buffer contents) give the
  same run: the same final local state of the loop (\<^verbatim>\<open>w\<close>, \<^verbatim>\<open>ws\<close>, \<^verbatim>\<open>wa\<close>, \<^verbatim>\<open>c\<close>,
  the recorded calls with the loss of every epoch, hence the number of epochs) and
  the same result (status and returned vector), faults included.
\<close>

theorem C9_score_is_not_used:
  assumes "\<forall>w seq v. fst (t2 w seq v) = fst (tag batch w seq v)"
  shows "train_loop binary64 pf (batch\<lparr>tag := t2\<rparr>) opt 0 (init_locals (batch\<lparr>tag := t2\<rparr>) opt g) =
      train_loop binary64 pf batch opt 0 (init_locals batch opt g) \<and>
    crf_train_averaged_perceptron binary64 pf (batch\<lparr>tag := t2\<rparr>) opt g =
      crf_train_averaged_perceptron binary64 pf batch opt g"
proof -
  have i: "init_locals (batch\<lparr>tag := t2\<rparr>) opt g = init_locals batch opt g"
    by (simp add: init_locals_def)
  show ?thesis
    using assms by (simp add: crf_train_averaged_perceptron_def train_loop_score i)
qed

theorem C9_score_is_not_used_witness:
  "(\<forall>w seq v. fst ((\<lambda>w s v. ([1], 42)) w seq v) = fst (tag batch_wrong w seq v)) \<and>
   crf_train_averaged_perceptron binary64 pf_ok (batch_wrong\<lparr>tag := \<lambda>w s v. ([1], 42)\<rparr>)
       \<lparr>max_iterations = 1, epsilon = 0\<rparr> () =
     Some \<lparr>ret = 0, ptr_w = Some [1 / 2, - (1 / 2)], res_rng = (),
           res_calls =
             [Call_logging (Msg_parameters 1 0), Call_mt_shuffle, Call_tag,
              Call_enum_features, Call_enum_features,
              Call_logging (Msg_iteration 1 1 (1 / 2)), Call_logging Msg_total]\<rparr>"
proof -
  have h: "\<forall>w seq v. fst ((\<lambda>w s v. ([1], 42)) w seq v) = fst (tag batch_wrong w seq v)"
    by (simp add: batch_wrong_def)
  from C9_score_is_not_used [OF h, of pf_ok "\<lparr>max_iterations = 1, epsilon = 0\<rparr>" "()"]
    train_batch_wrong_once h
  show ?thesis by simp
qed

subsection \<open>The update of a mistaken instance\<close>

lemma binary64_Some: "binary64 x = Some y \<Longrightarrow> y = round_binary64 x"
  by (auto simp: binary64_def Let_def split: if_splits)

lemma process_instance_update:
  assumes "process_instance rnd batch n s = Some s'"
  shows "\<exists>p seq v.
    array_read (perm s) n = Some p \<and> array_read (seqs batch) p = Some seq \<and>
    v = fst (tag batch (ud_w (ud s)) seq (viterbi s)) \<and>
    (if 0 < mismatches (labels seq) v (num_items seq) then
       (\<forall>f < length (ud_w (ud s)). \<exists>y.
          visits rnd 1 (enum_features batch seq (labels seq)) f (ud_w (ud s) ! f) = Some y \<and>
          visits rnd (- 1) (enum_features batch seq v) f y = Some (ud_w (ud s') ! f)) \<and>
       (\<forall>f < length (ud_ws (ud s)). \<exists>y.
          visits rnd (of_int (c s)) (enum_features batch seq (labels seq)) f (ud_ws (ud s) ! f)
            = Some y \<and>
          visits rnd (- of_int (c s)) (enum_features batch seq v) f y
            = Some (ud_ws (ud s') ! f)) \<and>
       (\<exists>q. fdiv rnd (of_nat (mismatches (labels seq) v (num_items seq)))
                (of_int (num_items seq)) = Some q \<and>
            fadd rnd (loss s) q = Some (loss s'))
     else ud s' = ud s \<and> loss s' = loss s)"
proof -
  from process_instance_Some[OF assms] obtain p seq d v where
    p: "array_read (perm s) n = Some p" and q: "array_read (seqs batch) p = Some seq"
    and v: "v = fst (tag batch (ud_w (ud s)) seq (viterbi s))"
    and d: "diff (labels seq) v (num_items seq) = Some d"
    and r: "if 0 < d then
       (\<exists>u1 u2 q l.
          run_callback rnd ((ud s)\<lparr>ud_c := 1, ud_cs := of_int (c s)\<rparr>)
            (enum_features batch seq (labels seq)) = Some u1 \<and>
          run_callback rnd (u1\<lparr>ud_c := - 1, ud_cs := - of_int (c s)\<rparr>)
            (enum_features batch seq v) = Some u2 \<and>
          fdiv rnd (of_int d) (of_int (num_items seq)) = Some q \<and>
          fadd rnd (loss s) q = Some l \<and>
          s' = s\<lparr>viterbi := v,
                 calls := calls s @ [Call_tag, Call_enum_features, Call_enum_features],
                 ud := u2, loss := l, c := c s + 1\<rparr>)
     else s' = s\<lparr>viterbi := v, calls := calls s @ [Call_tag], c := c s + 1\<rparr>"
    by blast
  note dm = diff_count[OF d]
  show ?thesis
  proof (cases "0 < d")
    case False
    with r p q v dm show ?thesis by auto
  next
    case True
    with r obtain u1 u2 qq l where
      u1: "run_callback rnd ((ud s)\<lparr>ud_c := 1, ud_cs := of_int (c s)\<rparr>)
         (enum_features batch seq (labels seq)) = Some u1"
      and u2: "run_callback rnd (u1\<lparr>ud_c := - 1, ud_cs := - of_int (c s)\<rparr>)
         (enum_features batch seq v) = Some u2"
      and qq: "fdiv rnd (of_int d) (of_int (num_items seq)) = Some qq"
      and l: "fadd rnd (loss s) qq = Some l"
      and s': "s' = s\<lparr>viterbi := v,
              calls := calls s @ [Call_tag, Call_enum_features, Call_enum_features],
              ud := u2, loss := l, c := c s + 1\<rparr>"
      by auto
    note a = run_callback_Some[OF u1, simplified]
    note b = run_callback_Some[OF u2, simplified]
    have w: "\<exists>y. visits rnd 1 (enum_features batch seq (labels seq)) f (ud_w (ud s) ! f) = Some y \<and>
          visits rnd (- 1) (enum_features batch seq v) f y = Some (ud_w u2 ! f)"
      if "f < length (ud_w (ud s))" for f
      using a b that by simp
    have ws: "\<exists>y. visits rnd (of_int (c s)) (enum_features batch seq (labels seq)) f
            (ud_ws (ud s) ! f) = Some y \<and>
          visits rnd (- of_int (c s)) (enum_features batch seq v) f y = Some (ud_ws u2 ! f)"
      if "f < length (ud_ws (ud s))" for f
      using a b that by simp
    have lo: "\<exists>q. fdiv rnd (of_nat (mismatches (labels seq) v (num_items seq)))
                (of_int (num_items seq)) = Some q \<and> fadd rnd (loss s) q = Some l"
      using qq l dm by auto
    have pos: "0 < mismatches (labels seq) v (num_items seq)"
      using True dm by simp
    show ?thesis
      using pos p q v w ws lo by (auto simp: s')
  qed
qed

text \<open>
  C4. Processing an instance reads \<^verbatim>\<open>perm[n]\<close>, decodes, and takes for \<open>d\<close> the
  number of positions where the predicted label differs from the gold label. If
  \<open>d > 0\<close>, the entry of every feature \<open>f\<close> in \<^verbatim>\<open>w\<close> undergoes
  \<^verbatim>\<open>w[f] += 1 * value\<close> for each visit of \<open>f\<close> under the gold labels and then
  \<^verbatim>\<open>w[f] += -1 * value\<close> for each visit under the predicted labels, the entry in
  \<^verbatim>\<open>ws\<close> the same with \<open>c\<close> and \<open>-c\<close> in place of 1 and -1, and the loss becomes
  \<^verbatim>\<open>loss + d / num_items\<close> (every operation rounded to double); otherwise \<^verbatim>\<open>w\<close>,
  \<^verbatim>\<open>ws\<close> and the loss stay. On the batch of one instance with one wrong label,
  gold feature 0 and predicted feature 1, both of value 1: after the first instance
  \<open>w = [1, -1]\<close>, \<open>ws = [1, -1]\<close>, and after the averaging at the end of the epoch
  \<open>wa = [1/2, -1/2]\<close>.
\<close>

theorem C4_mistake_update:
  "(\<forall>n s s'. process_instance binary64 batch n s = Some s' \<longrightarrow>
      (\<exists>p seq v.
         array_read (perm s) n = Some p \<and> array_read (seqs batch) p = Some seq \<and>
         v = fst (tag batch (ud_w (ud s)) seq (viterbi s)) \<and>
         (if 0 < mismatches (labels seq) v (num_items seq) then
            (\<forall>f < length (ud_w (ud s)). \<exists>y.
               visits binary64 1 (enum_features batch seq (labels seq)) f (ud_w (ud s) ! f)
                 = Some y \<and>
               visits binary64 (- 1) (enum_features batch seq v) f y = Some (ud_w (ud s') ! f)) \<and>
            (\<forall>f < length (ud_ws (ud s)). \<exists>y.
               visits binary64 (of_int (c s)) (enum_features batch seq (labels seq)) f
                 (ud_ws (ud s) ! f) = Some y \<and>
               visits binary64 (- of_int (c s)) (enum_features batch seq v) f y
                 = Some (ud_ws (ud s') ! f)) \<and>
            loss s' = round_binary64 (loss s +
              round_binary64 (of_nat (mismatches (labels seq) v (num_items seq)) /
                of_int (num_items seq)))
          else ud s' = ud s \<and> loss s' = loss s))) \<and>
   (\<exists>s1 s2.
      process_instance binary64 batch_wrong 0
        (epoch_begin pf_ok batch_wrong
           (init_locals batch_wrong \<lparr>max_iterations = 1, epsilon = 0\<rparr> ())) = Some s1 \<and>
      ud_w (ud s1) = [1, - 1] \<and> ud_ws (ud s1) = [1, - 1] \<and> loss s1 = 1 \<and> c s1 = 2 \<and>
      epoch binary64 pf_ok batch_wrong 0
        (init_locals batch_wrong \<lparr>max_iterations = 1, epsilon = 0\<rparr> ()) = Some s2 \<and>
      ud_w (ud s2) = [1, - 1] \<and> ud_ws (ud s2) = [1, - 1] \<and> c s2 = 2 \<and>
      wa s2 = [1 / 2, - (1 / 2)])"
proof (rule conjI)
  show "\<exists>s1 s2.
      process_instance binary64 batch_wrong 0
        (epoch_begin pf_ok batch_wrong
           (init_locals batch_wrong \<lparr>max_iterations = 1, epsilon = 0\<rparr> ())) = Some s1 \<and>
      ud_w (ud s1) = [1, - 1] \<and> ud_ws (ud s1) = [1, - 1] \<and> loss s1 = 1 \<and> c s1 = 2 \<and>
      epoch binary64 pf_ok batch_wrong 0
        (init_locals batch_wrong \<lparr>max_iterations = 1, epsilon = 0\<rparr> ()) = Some s2 \<and>
      ud_w (ud s2) = [1, - 1] \<and> ud_ws (ud s2) = [1, - 1] \<and> c s2 = 2 \<and>
      wa s2 = [1 / 2, - (1 / 2)]"
    by (simp add: eval_defs)
next
  have l: "l = round_binary64 (x + round_binary64 (y / z))"
    if "fdiv binary64 y z = Some q" "fadd binary64 x q = Some l" for l x y z q
    using that by (auto simp: fdiv_def fadd_def split: if_splits dest!: binary64_Some)
  show "\<forall>n s s'. process_instance binary64 batch n s = Some s' \<longrightarrow>
      (\<exists>p seq v.
         array_read (perm s) n = Some p \<and> array_read (seqs batch) p = Some seq \<and>
         v = fst (tag batch (ud_w (ud s)) seq (viterbi s)) \<and>
         (if 0 < mismatches (labels seq) v (num_items seq) then
            (\<forall>f < length (ud_w (ud s)). \<exists>y.
               visits binary64 1 (enum_features batch seq (labels seq)) f (ud_w (ud s) ! f)
                 = Some y \<and>
               visits binary64 (- 1) (enum_features batch seq v) f y = Some (ud_w (ud s') ! f)) \<and>
            (\<forall>f < length (ud_ws (ud s)). \<exists>y.
               visits binary64 (of_int (c s)) (enum_features batch seq (labels seq)) f
                 (ud_ws (ud s) ! f) = Some y \<and>
               visits binary64 (- of_int (c s)) (enum_features batch seq v) f y
                 = Some (ud_ws (ud s') ! f)) \<and>
            loss s' = round_binary64 (loss s +
              round_binary64 (of_nat (mismatches (labels seq) v (num_items seq)) /
                of_int (num_items seq)))
          else ud s' = ud s \<and> loss s' = loss s))"
  proof (intro allI impI)
    fix n s s'
    assume "process_instance binary64 batch n s = Some s'"
    from process_instance_update[OF this] obtain p seq v where
      r: "array_read (perm s) n = Some p \<and> array_read (seqs batch) p = Some seq \<and>
    v = fst (tag batch (ud_w (ud s)) seq (viterbi s)) \<and>
    (if 0 < mismatches (labels seq) v (num_items seq) then
       (\<forall>f < length (ud_w (ud s)). \<exists>y.
          visits binary64 1 (enum_features batch seq (labels seq)) f (ud_w (ud s) ! f) = Some y \<and>
          visits binary64 (- 1) (enum_features batch seq v) f y = Some (ud_w (ud s') ! f)) \<and>
       (\<forall>f < length (ud_ws (ud s)). \<exists>y.
          visits binary64 (of_int (c s)) (enum_features batch seq (labels seq)) f (ud_ws (ud s) ! f)
            = Some y \<and>
          visits binary64 (- of_int (c s)) (enum_features batch seq v) f y
            = Some (ud_ws (ud s') ! f)) \<and>
       (\<exists>q. fdiv binary64 (of_nat (mismatches (labels seq) v (num_items seq)))
                (of_int (num_items seq)) = Some q \<and>
            fadd binary64 (loss s) q = Some (loss s'))
     else ud s' = ud s \<and> loss s' = loss s)"
      by blast
    show "\<exists>p seq v.
         array_read (perm s) n = Some p \<and> array_read (seqs batch) p = Some seq \<and>
         v = fst (tag batch (ud_w (ud s)) seq (viterbi s)) \<and>
         (if 0 < mismatches (labels seq) v (num_items seq) then
            (\<forall>f < length (ud_w (ud s)). \<exists>y.
               visits binary64 1 (enum_features batch seq (labels seq)) f (ud_w (ud s) ! f)
                 = Some y \<and>
               visits binary64 (- 1) (enum_features batch seq v) f y = Some (ud_w (ud s') ! f)) \<and>
            (\<forall>f < length (ud_ws (ud s)). \<exists>y.
               visits binary64 (of_int (c s)) (enum_features batch seq (labels seq)) f
                 (ud_ws (ud s) ! f) = Some y \<and>
               visits binary64 (- of_int (c s)) (enum_features batch seq v) f y
                 = Some (ud_ws (ud s') ! f)) \<and>
            loss s' = round_binary64 (loss s +
              round_binary64 (of_nat (mismatches (labels seq) v (num_items seq)) /
                of_int (num_items seq)))
          else ud s' = ud s \<and> loss s' = loss s)"
    proof (cases "0 < mismatches (labels seq) v (num_items seq)")
      case True
      note t = r[THEN conjunct2, THEN conjunct2, THEN conjunct2, unfolded if_P[OF True]]
      from t obtain q where "fdiv binary64 (of_nat (mismatches (labels seq) v (num_items seq)))
                (of_int (num_items seq)) = Some q" "fadd binary64 (loss s) q = Some (loss s')"
        by blast
      note l' = l[OF this]
      show ?thesis
        apply (rule exI[of _ p], rule exI[of _ seq], rule exI[of _ v])
        apply (simp only: if_P[OF True])
        apply (intro conjI)
        apply (rule r[THEN conjunct1])
        apply (rule r[THEN conjunct2, THEN conjunct1])
        apply (rule r[THEN conjunct2, THEN conjunct2, THEN conjunct1])
        apply (rule t[THEN conjunct1])
        apply (rule t[THEN conjunct2, THEN conjunct1])
        apply (rule l')
        done
    next
      case False
      note e = r[THEN conjunct2, THEN conjunct2, THEN conjunct2, unfolded if_not_P[OF False]]
      show ?thesis
        apply (rule exI[of _ p], rule exI[of _ seq], rule exI[of _ v])
        apply (simp only: if_not_P[OF False])
        apply (intro conjI)
        apply (rule r[THEN conjunct1])
        apply (rule r[THEN conjunct2, THEN conjunct1])
        apply (rule r[THEN conjunct2, THEN conjunct2, THEN conjunct1])
        apply (rule e[THEN conjunct1], rule e[THEN conjunct2])
        done
    qed
  qed
qed

theorem C4_mistake_update_witness:
  "\<exists>s1. process_instance binary64 batch_four 0
          (epoch_begin pf_ok batch_four
             (init_locals batch_four \<lparr>max_iterations = 1, epsilon = 0\<rparr> ())) = Some s1 \<and>
        mismatches (labels seq_four) [0, 0, 1, 0] (num_items seq_four) = 1 \<and>
        ud_w (ud s1) ! 0 = 1 \<and> ud_w (ud s1) ! 1 = - 1 \<and>
        ud_ws (ud s1) ! 0 = 1 \<and> ud_ws (ud s1) ! 1 = - 1 \<and> loss s1 = 1 / 4"
proof -
  let ?s0 = "epoch_begin pf_ok batch_four
             (init_locals batch_four \<lparr>max_iterations = 1, epsilon = 0\<rparr> ())"
  have s0: "perm ?s0 = [0]" "ud_w (ud ?s0) = [0, 0]" "ud_ws (ud ?s0) = [0, 0]" "c ?s0 = 1"
    "loss ?s0 = 0"
    by (simp_all add: eval_defs)
  obtain s1 where p: "process_instance binary64 batch_four 0 ?s0 = Some s1"
    by (simp add: eval_defs)
  from C4_mistake_update [of batch_four] p obtain pp seq v where
    r1: "array_read (perm ?s0) 0 = Some pp" and r2: "array_read (seqs batch_four) pp = Some seq"
    and r3: "v = fst (tag batch_four (ud_w (ud ?s0)) seq (viterbi ?s0))"
    and r5: "if 0 < mismatches (labels seq) v (num_items seq) then
            (\<forall>f < length (ud_w (ud ?s0)). \<exists>y.
               visits binary64 1 (enum_features batch_four seq (labels seq)) f (ud_w (ud ?s0) ! f)
                 = Some y \<and>
               visits binary64 (- 1) (enum_features batch_four seq v) f y
                 = Some (ud_w (ud s1) ! f)) \<and>
            (\<forall>f < length (ud_ws (ud ?s0)). \<exists>y.
               visits binary64 (of_int (c ?s0)) (enum_features batch_four seq (labels seq)) f
                 (ud_ws (ud ?s0) ! f) = Some y \<and>
               visits binary64 (- of_int (c ?s0)) (enum_features batch_four seq v) f y
                 = Some (ud_ws (ud s1) ! f)) \<and>
            loss s1 = round_binary64 (loss ?s0 +
              round_binary64 (of_nat (mismatches (labels seq) v (num_items seq)) /
                of_int (num_items seq)))
          else ud s1 = ud ?s0 \<and> loss s1 = loss ?s0"
    by blast
  have pp: "pp = 0"
    using r1 unfolding s0 by (simp add: array_read_def)
  have seq: "seq = seq_four"
    using r2 unfolding pp by (simp add: array_read_def batch_four_def)
  have v: "v = [0, 0, 1, 0]"
    unfolding r3 by (simp add: batch_four_def)
  have m: "mismatches (labels seq_four) [0, 0, 1, 0] (num_items seq_four) = 1"
    by (simp add: mismatches_def seq_four_def upt_rec)
  have g: "enum_features batch_four seq (labels seq) = [(0, 1)]"
    "enum_features batch_four seq v = [(1, 1)]"
    unfolding seq v by (simp_all add: batch_four_def seq_four_def feats_four_def)
  from r5 have
    w: "\<forall>f < 2. \<exists>y. visits binary64 1 [(0, 1)] f ([0, 0] ! f) = Some y \<and>
          visits binary64 (- 1) [(1, 1)] f y = Some (ud_w (ud s1) ! f)"
    and ws: "\<forall>f < 2. \<exists>y. visits binary64 1 [(0, 1)] f ([0, 0] ! f) = Some y \<and>
          visits binary64 (- 1) [(1, 1)] f y = Some (ud_ws (ud s1) ! f)"
    and l: "loss s1 = round_binary64 (0 + round_binary64 (1 / of_int (num_items seq_four)))"
    unfolding g s0 unfolding seq v m by simp_all
  from w[rule_format, of 0] w[rule_format, of 1]
  have "ud_w (ud s1) ! 0 = 1" "ud_w (ud s1) ! 1 = - 1"
    by (simp_all add: fmul_def fadd_def round_num)
  moreover from ws[rule_format, of 0] ws[rule_format, of 1]
  have "ud_ws (ud s1) ! 0 = 1" "ud_ws (ud s1) ! 1 = - 1"
    by (simp_all add: fmul_def fadd_def round_num)
  moreover from l have "loss s1 = 1 / 4"
    by (simp add: seq_four_def round_binary64_def ilog2_def bit_length.simps pow2_def
        round_ties_even_def)
  ultimately show ?thesis
    using p m by simp
qed

subsection \<open>The average and the snapshots\<close>





















end
